theory Spec2Isabelle
  imports Complex_Main "HOL-Library.Char_ord" "HOL-Library.List_Lexorder" "HOL-Library.Product_Lexorder"
begin

section \<open>Python values and errors\<close>

text \<open>
  The exceptions the modelled code can raise, as values. \<open>PyException\<close> is a bare
  \<^verbatim>\<open>raise Exception(...)\<close> of the source; the others are the built-in exceptions raised
  by Python or by the table library on the paths the source takes.
\<close>

datatype error = PyException | KeyError | IndexError | ValueError | TypeError | AttributeError

text \<open>\<^verbatim>\<open>xs[i]\<close> for a non-negative literal index: IndexError out of range.\<close>

definition item :: "'a list \<Rightarrow> nat \<Rightarrow> error + 'a" where
  "item xs i = (if i < length xs then Inr (xs ! i) else Inl IndexError)"

text \<open>
  \<^verbatim>\<open>s.split(sep)\<close> for a one-character separator: one field more than there are
  separators, empty fields kept.
\<close>

fun split_on :: "char \<Rightarrow> string \<Rightarrow> string list" where
  "split_on sep [] = [[]]"
| "split_on sep (c # cs) =
     (if c = sep then [] # split_on sep cs
      else (case split_on sep cs of [] \<Rightarrow> [[c]] | f # fs \<Rightarrow> (c # f) # fs))"

text \<open>\<^verbatim>\<open>sub in s\<close> on strings: \<open>sub\<close> occurs in \<open>s\<close> as a contiguous block.\<close>

fun py_in_str :: "string \<Rightarrow> string \<Rightarrow> bool" where
  "py_in_str sub [] = (sub = [])"
| "py_in_str sub (c # cs) = (take (length sub) (c # cs) = sub \<or> py_in_str sub cs)"

text \<open>\<^verbatim>\<open>s.replace("U", "T")\<close>.\<close>

definition replace_U_T :: "string \<Rightarrow> string" where
  "replace_U_T s = map (\<lambda>c. if c = CHR ''U'' then CHR ''T'' else c) s"

section \<open>Sequence resolution: \<^verbatim>\<open>GENCODE.get_sequences\<close>, \<^verbatim>\<open>MirBase.get_sequences\<close>\<close>

text \<open>
  A FASTA record as the external parser hands it over: \<^verbatim>\<open>record.id\<close> and
  \<^verbatim>\<open>str(record.seq)\<close>. The dictionary \<^verbatim>\<open>seq_dict\<close> holds, per key, either one
  sequence string or a Python list of them.
\<close>

type_synonym fasta_record = "string \<times> string"

datatype seqval = One string | Many "string list"

type_synonym seq_dict = "string \<rightharpoonup> seqval"

text \<open>Python's \<^verbatim>\<open>len\<close> on a dictionary entry.\<close>

fun py_len :: "seqval \<Rightarrow> nat" where
  "py_len (One s) = length s"
| "py_len (Many l) = length l"

text \<open>
  The body of the \<^verbatim>\<open>if/elif\<close> chain on \<^verbatim>\<open>self.import_sequences\<close> that both classes
  share. \<open>by_gene\<close> is the test \<^verbatim>\<open>"gene" in index\<close> of \<^verbatim>\<open>GENCODE\<close>; \<^verbatim>\<open>MirBase\<close> has
  no such test. \<^verbatim>\<open>seq_dict[key].append\<close> on a string entry raises AttributeError.
\<close>

definition store_sequence ::
  "bool \<Rightarrow> string \<Rightarrow> seq_dict \<Rightarrow> string \<Rightarrow> string \<Rightarrow> error + seq_dict" where
  "store_sequence by_gene import_sequences seq_dict key sequence_str =
     (if by_gene \<and> import_sequences = ''shortest'' then
        (case seq_dict key of
           None \<Rightarrow> Inr (seq_dict(key \<mapsto> One sequence_str))
         | Some v \<Rightarrow>
             if py_len v > length sequence_str
             then Inr (seq_dict(key \<mapsto> One sequence_str)) else Inr seq_dict)
      else if by_gene \<and> import_sequences = ''longest'' then
        (case seq_dict key of
           None \<Rightarrow> Inr (seq_dict(key \<mapsto> One sequence_str))
         | Some v \<Rightarrow>
             if py_len v < length sequence_str
             then Inr (seq_dict(key \<mapsto> One sequence_str)) else Inr seq_dict)
      else if by_gene \<and> import_sequences = ''all'' then
        (case seq_dict key of
           None \<Rightarrow> Inr (seq_dict(key \<mapsto> Many [sequence_str]))
         | Some (Many l) \<Rightarrow> Inr (seq_dict(key \<mapsto> Many (l @ [sequence_str])))
         | Some (One s) \<Rightarrow> Inl AttributeError)
      else Inr (seq_dict(key \<mapsto> One sequence_str)))"

text \<open>The key of a GENCODE record for the requested identifier space.\<close>

definition gencode_key :: "string \<Rightarrow> string \<Rightarrow> error + string" where
  "gencode_key index record_id =
     (let fields = split_on CHR ''|'' record_id in
      if index = ''gene_id'' then
        (case item fields 1 of Inl e \<Rightarrow> Inl e
         | Inr f \<Rightarrow> item (split_on CHR ''.'' f) 0)
      else if index = ''gene_name'' then item fields 5
      else if index = ''transcript_id'' then
        (case item fields 0 of Inl e \<Rightarrow> Inl e
         | Inr f \<Rightarrow> item (split_on CHR ''.'' f) 0)
      else if index = ''transcript_name'' then item fields 4
      else Inl PyException)"

definition normalise :: "bool \<Rightarrow> string \<Rightarrow> string" where
  "normalise replace_U2T sequence_str =
     (if replace_U2T then replace_U_T sequence_str else sequence_str)"

text \<open>The \<^verbatim>\<open>for record in SeqIO.parse(...)\<close> loop of \<^verbatim>\<open>GENCODE.get_sequences\<close>.\<close>

fun gencode_loop ::
  "string \<Rightarrow> string \<Rightarrow> bool \<Rightarrow> fasta_record list \<Rightarrow> seq_dict \<Rightarrow> error + seq_dict" where
  "gencode_loop index import_sequences replace_U2T [] seq_dict = Inr seq_dict"
| "gencode_loop index import_sequences replace_U2T ((rid, sq) # records) seq_dict =
     (case gencode_key index rid of
        Inl e \<Rightarrow> Inl e
      | Inr key \<Rightarrow>
          (case store_sequence (py_in_str ''gene'' index) import_sequences seq_dict key
                  (normalise replace_U2T sq) of
             Inl e \<Rightarrow> Inl e
           | Inr seq_dict' \<Rightarrow>
               gencode_loop index import_sequences replace_U2T records seq_dict'))"

text \<open>
  \<^verbatim>\<open>GENCODE.get_sequences(omic, index)\<close>. \<open>file_resources\<close> maps a logical file name to
  the records the FASTA parser yields for it; the object's fields \<^verbatim>\<open>import_sequences\<close> and
  \<^verbatim>\<open>replace_U2T\<close> are arguments.
\<close>

definition gencode_get_sequences ::
  "(string \<rightharpoonup> fasta_record list) \<Rightarrow> string \<Rightarrow> bool \<Rightarrow> string \<Rightarrow> string
     \<Rightarrow> error + seq_dict" where
  "gencode_get_sequences file_resources import_sequences replace_U2T omic index =
     (if omic = ''GE'' then
        (case file_resources ''transcripts.fa'' of
           None \<Rightarrow> Inl KeyError
         | Some records \<Rightarrow> gencode_loop index import_sequences replace_U2T records Map.empty)
      else if omic = ''LNC'' then
        (case file_resources ''lncRNA_transcripts.fa'' of
           None \<Rightarrow> Inl KeyError
         | Some records \<Rightarrow> gencode_loop index import_sequences replace_U2T records Map.empty)
      else Inl PyException)"

text \<open>The loop of \<^verbatim>\<open>MirBase.get_sequences\<close>: the key is \<^verbatim>\<open>str(record.id)\<close>.\<close>

fun mirbase_loop ::
  "string \<Rightarrow> bool \<Rightarrow> fasta_record list \<Rightarrow> seq_dict \<Rightarrow> error + seq_dict" where
  "mirbase_loop import_sequences replace_U2T [] seq_dict = Inr seq_dict"
| "mirbase_loop import_sequences replace_U2T ((rid, sq) # records) seq_dict =
     (case store_sequence True import_sequences seq_dict rid (normalise replace_U2T sq) of
        Inl e \<Rightarrow> Inl e
      | Inr seq_dict' \<Rightarrow> mirbase_loop import_sequences replace_U2T records seq_dict')"

definition mirbase_get_sequences ::
  "(string \<rightharpoonup> fasta_record list) \<Rightarrow> string \<Rightarrow> bool \<Rightarrow> string \<Rightarrow> string
     \<Rightarrow> error + seq_dict" where
  "mirbase_get_sequences file_resources import_sequences replace_U2T omic index =
     (case file_resources ''hairpin.fa'' of
        None \<Rightarrow> Inl KeyError
      | Some records \<Rightarrow> mirbase_loop import_sequences replace_U2T records Map.empty)"

text \<open>
  What the selection policies are specified to return for the sequences \<open>ss\<close> seen for
  one identifier, in stream order: the first sequence of minimal length, the first of
  maximal length, or all of them.
\<close>

definition first_shortest :: "string list \<Rightarrow> string \<Rightarrow> bool" where
  "first_shortest ss r \<longleftrightarrow>
     (\<exists>i < length ss. ss ! i = r \<and> (\<forall>j < length ss. length r \<le> length (ss ! j))
        \<and> (\<forall>j < i. length r < length (ss ! j)))"

definition first_longest :: "string list \<Rightarrow> string \<Rightarrow> bool" where
  "first_longest ss r \<longleftrightarrow>
     (\<exists>i < length ss. ss ! i = r \<and> (\<forall>j < length ss. length (ss ! j) \<le> length r)
        \<and> (\<forall>j < i. length (ss ! j) < length r))"

text \<open>The sequences of the stream that collapse to identifier \<open>k\<close>, in stream order.\<close>

definition gencode_seqs_of :: "string \<Rightarrow> bool \<Rightarrow> fasta_record list \<Rightarrow> string \<Rightarrow> string list" where
  "gencode_seqs_of index replace_U2T records k =
     map (\<lambda>(rid, sq). normalise replace_U2T sq)
       (filter (\<lambda>(rid, sq). gencode_key index rid = Inr k) records)"

definition mirbase_seqs_of :: "bool \<Rightarrow> fasta_record list \<Rightarrow> string \<Rightarrow> string list" where
  "mirbase_seqs_of replace_U2T records k =
     map (\<lambda>(rid, sq). normalise replace_U2T sq) (filter (\<lambda>(rid, sq). rid = k) records)"


text \<open>
  Proof devices: one loop that both classes instantiate (\<open>keyf\<close> computes the key,
  \<open>g\<close> is the gene test), and the update each policy performs on one entry.
\<close>


fun sel_loop ::
  "(string \<Rightarrow> error + string) \<Rightarrow> bool \<Rightarrow> string \<Rightarrow> bool \<Rightarrow> fasta_record list \<Rightarrow> seq_dict \<Rightarrow> error + seq_dict" where
  "sel_loop keyf g imp u [] d = Inr d"
| "sel_loop keyf g imp u ((rid, sq) # records) d =
     (case keyf rid of
        Inl e \<Rightarrow> Inl e
      | Inr key \<Rightarrow>
          (case store_sequence g imp d key (normalise u sq) of
             Inl e \<Rightarrow> Inl e
           | Inr d' \<Rightarrow> sel_loop keyf g imp u records d'))"

definition seqs_of :: "(string \<Rightarrow> error + string) \<Rightarrow> bool \<Rightarrow> fasta_record list \<Rightarrow> string \<Rightarrow> string list" where
  "seqs_of keyf u records k =
     map (\<lambda>(rid, sq). normalise u sq) (filter (\<lambda>(rid, sq). keyf rid = Inr k) records)"

definition upd_shortest :: "seqval option \<Rightarrow> string \<Rightarrow> seqval option" where
  "upd_shortest acc s = (case acc of None \<Rightarrow> Some (One s)
      | Some v \<Rightarrow> if py_len v > length s then Some (One s) else Some v)"

definition upd_longest :: "seqval option \<Rightarrow> string \<Rightarrow> seqval option" where
  "upd_longest acc s = (case acc of None \<Rightarrow> Some (One s)
      | Some v \<Rightarrow> if py_len v < length s then Some (One s) else Some v)"

definition upd_all :: "seqval option \<Rightarrow> string \<Rightarrow> seqval option" where
  "upd_all acc s = (case acc of Some (Many l) \<Rightarrow> Some (Many (l @ [s])) | _ \<Rightarrow> Some (Many [s]))"

definition upd_last :: "seqval option \<Rightarrow> string \<Rightarrow> seqval option" where
  "upd_last acc s = Some (One s)"

definition not_One :: "seqval option \<Rightarrow> bool" where
  "not_One acc = (case acc of Some (One s) \<Rightarrow> False | _ \<Rightarrow> True)"


text \<open>The selection result for one identifier, as the policies are specified.\<close>

definition selected :: "string \<Rightarrow> string list \<Rightarrow> seqval option \<Rightarrow> bool" where
  "selected policy ss v \<longleftrightarrow>
     (if ss = [] then v = None
      else if policy = ''shortest'' then (\<exists>r. v = Some (One r) \<and> first_shortest ss r)
      else if policy = ''longest'' then (\<exists>r. v = Some (One r) \<and> first_longest ss r)
      else if policy = ''all'' then v = Some (Many ss)
      else v = Some (One (last ss)))"


text \<open>Reading one entry of a returned dictionary.\<close>

definition dict_get :: "error + seq_dict \<Rightarrow> string \<Rightarrow> error + seqval option" where
  "dict_get r k = (case r of Inl e \<Rightarrow> Inl e | Inr d \<Rightarrow> Inr (d k))"


section \<open>Tables\<close>

text \<open>
  The tables are data frames of the table library (pandas), which is not code of this
  repository; the part of its documented behaviour that the modelled methods rely on is
  written out below, one definition per library operation.

  A cell is missing (\<open>NaN\<close>), a string or an integer. A frame is held column-wise: its
  index levels (a plain index is one level, a composite index has two or more), each with
  its optional name and its values, and its columns in order, each with its label and its
  values. Labels may repeat. In a well-formed frame all levels and columns have the same
  length, the number of rows.
\<close>

datatype val = NaN | Str string | Num int

record frame =
  levels :: "(string option \<times> val list) list"
  cols :: "(string \<times> val list) list"

definition labels :: "frame \<Rightarrow> string list" where
  "labels df = map fst (cols df)"

definition level_names :: "frame \<Rightarrow> string option list" where
  "level_names df = map fst (levels df)"

definition nrows :: "frame \<Rightarrow> nat" where
  "nrows df = (case levels df of [] \<Rightarrow> 0 | l # _ \<Rightarrow> length (snd l))"


text \<open>\<^verbatim>\<open>df.index.name\<close> and \<^verbatim>\<open>isinstance(df.index, pd.MultiIndex)\<close>.\<close>

definition index_name :: "frame \<Rightarrow> string option" where
  "index_name df = (case levels df of [l] \<Rightarrow> fst l | _ \<Rightarrow> None)"

definition is_MultiIndex :: "frame \<Rightarrow> bool" where
  "is_MultiIndex df \<longleftrightarrow> length (levels df) > 1"

text \<open>The entries of the index, one per row: a tuple of level values.\<close>

definition index_entries :: "frame \<Rightarrow> val list list" where
  "index_entries df = map (\<lambda>i. map (\<lambda>l. snd l ! i) (levels df)) [0..<nrows df]"

text \<open>The columns that carry a label, in order.\<close>

definition occurrences :: "frame \<Rightarrow> string \<Rightarrow> val list list" where
  "occurrences df l = map snd (filter (\<lambda>c. fst c = l) (cols df))"

text \<open>Python's \<^verbatim>\<open>str\<close> of a natural number and of an integer.\<close>

fun decimal :: "nat \<Rightarrow> string" where
  "decimal n = (if n < 10 then [char_of (48 + n)]
                else decimal (n div 10) @ [char_of (48 + n mod 10)])"

declare decimal.simps [simp del]

definition str_of_int :: "int \<Rightarrow> string" where
  "str_of_int i = (if i < 0 then CHR ''-'' # decimal (nat (- i)) else decimal (nat i))"

text \<open>Evaluating a list of computations in order: the first exception is raised.\<close>

fun sequence :: "(error + 'a) list \<Rightarrow> error + 'a list" where
  "sequence [] = Inr []"
| "sequence (r # rs) =
     (case r of Inl e \<Rightarrow> Inl e
      | Inr x \<Rightarrow> (case sequence rs of Inl e \<Rightarrow> Inl e | Inr xs \<Rightarrow> Inr (x # xs)))"

text \<open>
  The distinct elements of a list in order of first appearance, as a hash-table pass
  computes them: \<^verbatim>\<open>Series.unique()\<close>, and the key order of a dictionary comprehension.
\<close>

fun unique_from :: "'a list \<Rightarrow> 'a list \<Rightarrow> 'a list" where
  "unique_from seen [] = seen"
| "unique_from seen (x # xs) =
     (if x \<in> set seen then unique_from seen xs else unique_from (seen @ [x]) xs)"

definition unique :: "'a list \<Rightarrow> 'a list" where
  "unique xs = unique_from [] xs"

text \<open>\<^verbatim>\<open>sep.join(items)\<close> on strings.\<close>

fun join_str :: "string \<Rightarrow> string list \<Rightarrow> string" where
  "join_str sep [] = []"
| "join_str sep [s] = s"
| "join_str sep (s # t # ss) = s @ sep @ join_str sep (t # ss)"

subsection \<open>Selecting columns\<close>

text \<open>
  \<^verbatim>\<open>df[[l1, ..., ln]]\<close>: KeyError when a label is missing; otherwise the columns in the
  order asked for, every column that carries the label.
\<close>

definition getitem_list :: "frame \<Rightarrow> string list \<Rightarrow> error + frame" where
  "getitem_list df ls =
     (if \<exists>l \<in> set ls. l \<notin> set (labels df) then Inl KeyError
      else Inr (df\<lparr>cols := concat (map (\<lambda>l. filter (\<lambda>c. fst c = l) (cols df)) ls)\<rparr>))"

text \<open>
  \<^verbatim>\<open>df.filter(items=ls)\<close>: re-indexes the columns to the items that are labels of the
  frame, dropping the others silently. Re-indexing a frame with repeated labels raises
  ValueError, unless the selection is the frame's own list of labels.
\<close>

definition filter_items :: "frame \<Rightarrow> string list \<Rightarrow> error + frame" where
  "filter_items df ls =
     (let keep = filter (\<lambda>l. l \<in> set (labels df)) ls in
      if keep = labels df then Inr df
      else if \<not> distinct (labels df) then Inl ValueError
      else Inr (df\<lparr>cols := concat (map (\<lambda>l. filter (\<lambda>c. fst c = l) (cols df)) keep)\<rparr>))"

text \<open>
  \<^verbatim>\<open>df.drop(columns=l)\<close>: removes every column labelled \<open>l\<close>; KeyError when there is
  none.
\<close>

definition drop_column :: "frame \<Rightarrow> string \<Rightarrow> error + frame" where
  "drop_column df l =
     (if l \<notin> set (labels df) then Inl KeyError
      else Inr (df\<lparr>cols := filter (\<lambda>c. fst c \<noteq> l) (cols df)\<rparr>))"

subsection \<open>Changing the index\<close>

text \<open>
  \<^verbatim>\<open>df.set_index(keys)\<close>, for one key or a list of keys: the named columns become the
  levels of the index and leave the columns; the former index is discarded. A key that is
  not a column label (the name \<^verbatim>\<open>None\<close> among them) raises KeyError, a label that
  several columns carry raises ValueError, and so does an empty list of keys.
\<close>

definition set_index :: "frame \<Rightarrow> string option list \<Rightarrow> error + frame" where
  "set_index df keys =
     (if \<exists>k \<in> set keys. (case k of None \<Rightarrow> True | Some l \<Rightarrow> l \<notin> set (labels df))
      then Inl KeyError
      else if keys = [] \<or> (\<exists>k \<in> set keys. length (occurrences df (the k)) > 1)
      then Inl ValueError
      else Inr \<lparr>levels = map (\<lambda>k. (k, concat (occurrences df (the k)))) keys,
                cols = filter (\<lambda>c. Some (fst c) \<notin> set keys) (cols df)\<rparr>)"

text \<open>
  \<^verbatim>\<open>df.reset_index()\<close>: the levels of the index become the first columns, under their
  names; an unnamed level is called \<^verbatim>\<open>index\<close> (\<^verbatim>\<open>level_0\<close> when a column \<^verbatim>\<open>index\<close>
  exists) for a plain index and \<^verbatim>\<open>level_i\<close> for level \<open>i\<close> of a composite index.
  Inserting a name that is already a column label raises ValueError. The new index is
  the unnamed range \<open>0, ..., n - 1\<close>.
\<close>

definition reset_names :: "frame \<Rightarrow> string list" where
  "reset_names df =
     (case levels df of
        [(name, vs)] \<Rightarrow>
          [case name of Some n \<Rightarrow> n
           | None \<Rightarrow> if ''index'' \<in> set (labels df) then ''level_0'' else ''index'']
      | ls \<Rightarrow>
          map (\<lambda>(i, (name, vs)). case name of Some n \<Rightarrow> n | None \<Rightarrow> ''level_'' @ decimal i)
            (enumerate 0 ls))"

definition reset_index :: "frame \<Rightarrow> error + frame" where
  "reset_index df =
     (let names = reset_names df in
      if \<not> distinct names \<or> (\<exists>n \<in> set names. n \<in> set (labels df)) then Inl ValueError
      else Inr \<lparr>levels = [(None, map (\<lambda>i. Num (int i)) [0..<nrows df])],
                cols = zip names (map snd (levels df)) @ cols df\<rparr>)"

subsection \<open>Grouping and aggregating\<close>

text \<open>
  A name given to \<^verbatim>\<open>groupby\<close> or to \<^verbatim>\<open>join(on=...)\<close> is looked up among the column
  labels and the names of the index levels: ValueError when it is both, or when several
  columns or several levels carry it; KeyError when it is neither.
\<close>

definition label_or_level :: "frame \<Rightarrow> string \<Rightarrow> error + val list" where
  "label_or_level df key =
     (let cs = occurrences df key;
          ls = map snd (filter (\<lambda>l. fst l = Some key) (levels df))
      in if cs \<noteq> [] \<and> ls \<noteq> [] then Inl ValueError
         else (case cs of
                 [c] \<Rightarrow> Inr c
               | _ # _ # _ \<Rightarrow> Inl ValueError
               | [] \<Rightarrow> (case ls of [] \<Rightarrow> Inl KeyError | [l] \<Rightarrow> Inr l | _ \<Rightarrow> Inl ValueError)))"

text \<open>
  The order in which \<^verbatim>\<open>groupby\<close> sorts its keys: integers before strings, integers by
  value, strings by code point.
\<close>

definition val_rank :: "val \<Rightarrow> nat \<times> int \<times> string" where
  "val_rank v = (case v of Num i \<Rightarrow> (0, i, []) | Str s \<Rightarrow> (1, 0, s) | NaN \<Rightarrow> (2, 0, []))"

text \<open>
  The groups of \<^verbatim>\<open>groupby\<close>: one per distinct key, missing keys dropped, keys sorted;
  the values of a group are those of the rows with its key, in row order.
\<close>

definition group_keys :: "val list \<Rightarrow> val list" where
  "group_keys ks = sort_key val_rank (remdups (filter (\<lambda>k. k \<noteq> NaN) ks))"

definition group_values :: "val list \<Rightarrow> val list \<Rightarrow> val \<Rightarrow> val list" where
  "group_values ks vs k = map snd (filter (\<lambda>kv. fst kv = k) (zip ks vs))"

type_synonym reducer = "val list \<Rightarrow> error + val"

definition reduce_column :: "reducer \<Rightarrow> val list \<Rightarrow> val list \<Rightarrow> error + val list" where
  "reduce_column f ks vs = sequence (map (\<lambda>k. f (group_values ks vs k)) (group_keys ks))"

text \<open>
  \<^verbatim>\<open>df.groupby(by).agg({c1: f1, ...})\<close>: the result is indexed by the group keys, under
  the name \<open>by\<close>, and has the aggregated columns of the dictionary, in its order. A key
  of the dictionary that is not a column raises KeyError; an empty dictionary raises
  ValueError (nothing to concatenate); a key that several columns carry selects a frame
  where a column is expected, and raises AttributeError.
\<close>

definition groupby_agg_dict :: "frame \<Rightarrow> string \<Rightarrow> (string \<times> reducer) list \<Rightarrow> error + frame" where
  "groupby_agg_dict df by spec =
     (case label_or_level df by of
        Inl e \<Rightarrow> Inl e
      | Inr ks \<Rightarrow>
          if \<exists>c \<in> set (map fst spec). c \<notin> set (labels df) then Inl KeyError
          else if spec = [] then Inl ValueError
          else if \<exists>c \<in> set (map fst spec). length (occurrences df c) > 1
          then Inl AttributeError
          else (case sequence (concat (map (\<lambda>(c, f).
                        map (\<lambda>vs. case reduce_column f ks vs of
                                     Inl e \<Rightarrow> Inl e | Inr r \<Rightarrow> Inr (c, r))
                          (occurrences df c)) spec)) of
                  Inl e \<Rightarrow> Inl e
                | Inr cs \<Rightarrow> Inr \<lparr>levels = [(Some by, group_keys ks)], cols = cs\<rparr>))"

text \<open>
  \<^verbatim>\<open>df.groupby(by).aggregate(name)\<close> for a named reduction: every column but the
  grouping column is aggregated.
\<close>

definition groupby_aggregate :: "frame \<Rightarrow> string \<Rightarrow> reducer \<Rightarrow> error + frame" where
  "groupby_aggregate df by f =
     (case label_or_level df by of
        Inl e \<Rightarrow> Inl e
      | Inr ks \<Rightarrow>
          (case sequence (map (\<lambda>(c, vs). case reduce_column f ks vs of
                                 Inl e \<Rightarrow> Inl e | Inr r \<Rightarrow> Inr (c, r))
                  (filter (\<lambda>c. fst c \<noteq> by) (cols df))) of
             Inl e \<Rightarrow> Inl e
           | Inr cs \<Rightarrow> Inr \<lparr>levels = [(Some by, group_keys ks)], cols = cs\<rparr>))"

subsection \<open>Joining\<close>

text \<open>
  \<^verbatim>\<open>left.join(right, on=key, rsuffix="_")\<close>: a left join of the values that \<open>key\<close>
  names in \<open>left\<close> against the index of \<open>right\<close>, which must have one level (ValueError
  otherwise). A left row is repeated once per matching right row, in the order of
  \<open>right\<close>, and kept once with missing cells when nothing matches. The index of the
  result is that of \<open>left\<close>. A label of \<open>right\<close> that is also a label of \<open>left\<close> gets
  the suffix; the labels of \<open>left\<close> are kept.
\<close>

definition positions :: "val list \<Rightarrow> val \<Rightarrow> nat list" where
  "positions ks k = filter (\<lambda>j. ks ! j = k) [0..<length ks]"

definition take_left :: "nat list list \<Rightarrow> val list \<Rightarrow> val list" where
  "take_left ms vs = concat (map (\<lambda>(v, m). replicate (max 1 (length m)) v) (zip vs ms))"

definition take_right :: "nat list list \<Rightarrow> val list \<Rightarrow> val list" where
  "take_right ms ws = concat (map (\<lambda>m. if m = [] then [NaN] else map (\<lambda>j. ws ! j) m) ms)"

definition join_on :: "frame \<Rightarrow> frame \<Rightarrow> string \<Rightarrow> error + frame" where
  "join_on left right key =
     (case label_or_level left key of
        Inl e \<Rightarrow> Inl e
      | Inr lkeys \<Rightarrow>
          (case levels right of
             [(rname, rkeys)] \<Rightarrow>
               (let ms = map (positions rkeys) lkeys in
                Inr \<lparr>levels = map (\<lambda>(n, vs). (n, take_left ms vs)) (levels left),
                     cols = map (\<lambda>(l, vs). (l, take_left ms vs)) (cols left) @
                            map (\<lambda>(l, ws). (if l \<in> set (labels left) then l @ ''_'' else l,
                                             take_right ms ws)) (cols right)\<rparr>)
           | _ \<Rightarrow> Inl ValueError))"

subsection \<open>Filling missing cells\<close>

text \<open>
  \<^verbatim>\<open>a.fillna(b)\<close> on two columns of one frame: row by row, a missing cell of \<open>a\<close>
  takes the cell of \<open>b\<close>.
\<close>

definition fillna :: "val list \<Rightarrow> val list \<Rightarrow> val list" where
  "fillna vs ws = map (\<lambda>(v, w). if v = NaN then w else v) (zip vs ws)"

text \<open>
  \<^verbatim>\<open>df[old_col].fillna(df[new_col], inplace=True, axis=0)\<close>, with the in-place fill
  reaching the frame, as the docstring of \<^verbatim>\<open>annotate_genomics\<close> describes it. A label that
  no column carries raises KeyError, the old one first. A label that several columns carry
  selects a frame, not a column: filling a column from a frame raises TypeError, and
  filling a selected frame leaves \<open>df\<close> as it is.
\<close>

definition fillna_column :: "frame \<Rightarrow> string \<Rightarrow> string \<Rightarrow> error + frame" where
  "fillna_column df old_col new_col =
     (case occurrences df old_col of
        [] \<Rightarrow> Inl KeyError
      | [old] \<Rightarrow>
          (case occurrences df new_col of
             [] \<Rightarrow> Inl KeyError
           | [new] \<Rightarrow>
               Inr (df\<lparr>cols := map (\<lambda>(l, vs). if l = old_col then (l, fillna vs new)
                                              else (l, vs)) (cols df)\<rparr>)
           | _ \<Rightarrow> Inl TypeError)
      | _ \<Rightarrow> (case occurrences df new_col of [] \<Rightarrow> Inl KeyError | _ \<Rightarrow> Inr df))"



section \<open>Aggregation: \<^verbatim>\<open>Dataset.get_annotations\<close>\<close>

text \<open>Python's \<^verbatim>\<open>str\<close> of a cell; a missing cell is the float \<^verbatim>\<open>nan\<close>.\<close>

definition str_repr :: "val \<Rightarrow> string" where
  "str_repr v = (case v of Str s \<Rightarrow> s | Num i \<Rightarrow> str_of_int i | NaN \<Rightarrow> ''nan'')"

text \<open>
  Modelled from the spec: the reducers \<^verbatim>\<open>concat_uniques\<close> and \<^verbatim>\<open>concat_uniques_agg\<close> of
  \<^verbatim>\<open>openomics.utils.df\<close>, which the two versions of \<^verbatim>\<open>get_annotations\<close> import, are not
  among the sources. The specification describes the reducer as: the values of the group,
  "duplicates collapsed to a set of unique string representations, order of first
  appearance preserved, then joined with a fixed separator character, default |".
\<close>

definition first_appearances :: "'a list \<Rightarrow> 'a list" where
  "first_appearances xs = map (\<lambda>i. xs ! i) (filter (\<lambda>i. xs ! i \<notin> set (take i xs)) [0..<length xs])"

definition concat_uniques :: "val list \<Rightarrow> val" where
  "concat_uniques vs = Str (join_str ''|'' (first_appearances (map str_repr vs)))"

text \<open>
  The reducer written out in \<^verbatim>\<open>RNAcentral.load_data\<close>:
  \<^verbatim>\<open>lambda x: "|".join(x.unique())\<close>. Joining raises TypeError on an item that is not
  a string.
\<close>

definition join_unique :: "val list \<Rightarrow> error + val" where
  "join_unique x =
     (let u = unique x in
      if \<exists>v \<in> set u. (case v of Str s \<Rightarrow> False | _ \<Rightarrow> True) then Inl TypeError
      else Inr (Str (join_str ''|'' (map str_repr u))))"

text \<open>
  The argument \<^verbatim>\<open>agg\<close>: \<^verbatim>\<open>"concat"\<close>, or any other value, which is handed to
  \<^verbatim>\<open>groupby.aggregate\<close>; \<open>Named f\<close> stands for such a value, \<open>f\<close> being the reduction
  the table library performs for it on the values of one group.
\<close>

datatype agg = Concat | Named reducer

text \<open>
  \<^verbatim>\<open>Dataset.get_annotations(index, columns, agg)\<close> of \<^verbatim>\<open>base.py\<close>, on the table
  \<^verbatim>\<open>self.data\<close>. The caller's list \<^verbatim>\<open>columns\<close> is mutated in place, so the list as the
  call leaves it is returned with the result.
\<close>

definition base_get_annotations ::
  "frame \<Rightarrow> string \<Rightarrow> string list \<Rightarrow> agg \<Rightarrow> string list \<times> (error + frame)" where
  "base_get_annotations data index columns agg =
     (if \<not> set columns \<subseteq> set (labels data) then (columns, Inl PyException)
      else
        let columns' = (if index \<in> set columns then remove1 index columns else columns) in
        (columns',
         case getitem_list data (columns' @ [index]) of
           Inl e \<Rightarrow> Inl e
         | Inr df \<Rightarrow>
             (case (if Some index \<noteq> index_name data \<and> index \<in> set (labels data)
                    then set_index df [Some index] else Inr df) of
                Inl e \<Rightarrow> Inl e
              | Inr df \<Rightarrow>
                  (case agg of
                     Concat \<Rightarrow>
                       groupby_agg_dict df index
                         (map (\<lambda>col. (col, \<lambda>vs. Inr (concat_uniques vs))) (unique columns'))
                   | Named f \<Rightarrow> groupby_aggregate df index f))))"

text \<open>
  The check that ends \<^verbatim>\<open>get_annotations\<close> in \<^verbatim>\<open>annotation.py\<close>:
  \<^verbatim>\<open>if df.index.duplicated().sum() > 0: raise ValueError(...)\<close>. In \<^verbatim>\<open>base.py\<close> the
  two lines are commented out.
\<close>

definition check_unique_index :: "frame \<Rightarrow> error + frame" where
  "check_unique_index df = (if \<not> distinct (index_entries df) then Inl ValueError else Inr df)"

text \<open>
  \<^verbatim>\<open>Dataset.get_annotations(index, columns)\<close> of \<^verbatim>\<open>annotation.py\<close>, on the table
  \<^verbatim>\<open>self.df\<close>; \<^verbatim>\<open>columns\<close> may be \<^verbatim>\<open>None\<close>. The index entry is popped from the list
  after the column selection has returned.
\<close>

definition annotation_get_annotations ::
  "frame \<Rightarrow> string \<Rightarrow> string list option \<Rightarrow> string list option \<times> (error + frame)" where
  "annotation_get_annotations data index columns =
     (case columns of
        None \<Rightarrow> (None, Inl PyException)
      | Some cs \<Rightarrow>
          (case (if index \<in> set cs then filter_items data cs
                 else filter_items data (cs @ [index])) of
             Inl e \<Rightarrow> (Some cs, Inl e)
           | Inr df \<Rightarrow>
               let columns' = (if index \<in> set cs then remove1 index cs else cs) in
               (Some columns',
                case (if Some index \<noteq> index_name data \<and> index \<in> set (labels data)
                      then set_index df [Some index] else Inr df) of
                  Inl e \<Rightarrow> Inl e
                | Inr df \<Rightarrow>
                    (case groupby_agg_dict df index
                            (map (\<lambda>k. (k, \<lambda>vs. Inr (concat_uniques vs))) (unique columns')) of
                       Inl e \<Rightarrow> Inl e
                     | Inr df \<Rightarrow> check_unique_index df))))"

section \<open>Joining: \<^verbatim>\<open>Annotatable.annotate_genomics\<close>\<close>

text \<open>
  \<^verbatim>\<open>difflib.get_close_matches(x, possibilities)\<close> is an argument of the model: it is
  given one entry of an index and the entries of another and returns the close matches,
  best first, or raises. An entry is the tuple of its level values, a one-element list
  for a plain index.
\<close>

type_synonym matcher = "val list \<Rightarrow> val list list \<Rightarrow> error + val list list"

text \<open>
  \<^verbatim>\<open>database_df.index = database_df.index.map(lambda x: get_close_matches(x,
  self.annotations.index)[0])\<close>. Mapping to tuples gives a composite index with one
  level per component, each under the name of the mapped index.
\<close>

definition component :: "nat \<Rightarrow> val list \<Rightarrow> val" where
  "component j e = (case drop j e of [] \<Rightarrow> NaN | v # _ \<Rightarrow> v)"

definition index_from_entries :: "string option \<Rightarrow> val list list \<Rightarrow> (string option \<times> val list) list" where
  "index_from_entries name es =
     (case es of
        [] \<Rightarrow> [(name, [])]
      | e # _ \<Rightarrow> map (\<lambda>j. (name, map (component j) es)) [0..<length e])"

definition fuzzy_index :: "matcher \<Rightarrow> frame \<Rightarrow> frame \<Rightarrow> error + frame" where
  "fuzzy_index get_close_matches annotations database_df =
     (case sequence (map (\<lambda>x. case get_close_matches x (index_entries annotations) of
                                 Inl e \<Rightarrow> Inl e | Inr ms \<Rightarrow> item ms 0)
                       (index_entries database_df)) of
        Inl e \<Rightarrow> Inl e
      | Inr es \<Rightarrow> Inr (database_df\<lparr>levels := index_from_entries (index_name database_df) es\<rparr>))"

text \<open>
  \<^verbatim>\<open>self.annotations = <expression>\<close> followed by the rest of the method: when the
  expression raises, the method ends with the table as it was before the assignment.
\<close>

definition assign ::
  "error + frame \<Rightarrow> frame \<Rightarrow> (frame \<Rightarrow> frame \<times> error option) \<Rightarrow> frame \<times> error option" where
  "assign r current rest = (case r of Inl e \<Rightarrow> (current, Some e) | Inr new \<Rightarrow> rest new)"

text \<open>
  \<^verbatim>\<open>[col for col in self.annotations.columns if col[-1] == "_"]\<close>: indexing the empty
  label raises IndexError.
\<close>

definition duplicate_columns :: "frame \<Rightarrow> error + string list" where
  "duplicate_columns df =
     (if [] \<in> set (labels df) then Inl IndexError
      else Inr (filter (\<lambda>col. last col = CHR ''_'') (labels df)))"

text \<open>\<^verbatim>\<open>s.strip("_")\<close>: the underscores at both ends are removed.\<close>

definition strip_underscores :: "string \<Rightarrow> string" where
  "strip_underscores s =
     rev (dropWhile (\<lambda>c. c = CHR ''_'') (rev (dropWhile (\<lambda>c. c = CHR ''_'') s)))"

text \<open>The merge loop of \<^verbatim>\<open>base.py\<close>: fill the old column, drop the new one.\<close>

fun base_merge_columns :: "string list \<Rightarrow> frame \<Rightarrow> frame \<times> error option" where
  "base_merge_columns [] annotations = (annotations, None)"
| "base_merge_columns (new_col # rest) annotations =
     (let old_col = strip_underscores new_col in
      assign (fillna_column annotations old_col new_col) annotations (\<lambda>annotations.
      assign (drop_column annotations new_col) annotations (\<lambda>annotations.
      base_merge_columns rest annotations)))"

text \<open>The merge loop of \<^verbatim>\<open>annotation.py\<close>: the drop is commented out.\<close>

fun annotation_merge_columns :: "string list \<Rightarrow> frame \<Rightarrow> frame \<times> error option" where
  "annotation_merge_columns [] annotations = (annotations, None)"
| "annotation_merge_columns (col # rest) annotations =
     assign (fillna_column annotations (strip_underscores col) col) annotations (\<lambda>annotations.
     annotation_merge_columns rest annotations)"

text \<open>
  \<^verbatim>\<open>Annotatable.annotate_genomics(database, index, columns, agg, fuzzy_match)\<close> of
  \<^verbatim>\<open>base.py\<close>. The state is the table \<^verbatim>\<open>self.annotations\<close>; the result is the table
  as the call leaves it and the exception, if one was raised. \<open>data\<close> is
  \<^verbatim>\<open>database.data\<close>.
\<close>

definition base_annotate_genomics ::
  "matcher \<Rightarrow> frame \<Rightarrow> frame \<Rightarrow> string \<Rightarrow> string list \<Rightarrow> agg \<Rightarrow> bool \<Rightarrow> frame \<times> error option" where
  "base_annotate_genomics get_close_matches annotations data index columns agg fuzzy_match =
     (case snd (base_get_annotations data index columns agg) of
        Inl e \<Rightarrow> (annotations, Some e)
      | Inr database_df \<Rightarrow>
          (case (if fuzzy_match then fuzzy_index get_close_matches annotations database_df
                 else Inr database_df) of
             Inl e \<Rightarrow> (annotations, Some e)
           | Inr database_df \<Rightarrow>
               (let merge = (\<lambda>annotations.
                      case duplicate_columns annotations of
                        Inl e \<Rightarrow> (annotations, Some e)
                      | Inr dups \<Rightarrow> base_merge_columns dups annotations)
                in
                if Some index = index_name annotations then
                  assign (join_on annotations database_df index) annotations merge
                else
                  let old_index = (if is_MultiIndex annotations then level_names annotations
                                   else [index_name annotations]) in
                  assign (reset_index annotations) annotations (\<lambda>annotations.
                  assign (set_index annotations [Some index]) annotations (\<lambda>annotations.
                  assign (case join_on annotations database_df index of
                            Inl e \<Rightarrow> Inl e | Inr joined \<Rightarrow> reset_index joined)
                         annotations (\<lambda>annotations.
                  assign (set_index annotations old_index) annotations merge))))))"

text \<open>
  \<^verbatim>\<open>Annotatable.annotate_genomics(database, index, columns)\<close> of \<^verbatim>\<open>annotation.py\<close>;
  \<open>data\<close> is \<^verbatim>\<open>database.df\<close>. On a key that is not the name of the index, the table
  is re-indexed before the database is aggregated.
\<close>

definition annotation_annotate_genomics ::
  "frame \<Rightarrow> frame \<Rightarrow> string \<Rightarrow> string list option \<Rightarrow> frame \<times> error option" where
  "annotation_annotate_genomics annotations data index columns =
     (let merge = (\<lambda>annotations.
            case duplicate_columns annotations of
              Inl e \<Rightarrow> (annotations, Some e)
            | Inr dups \<Rightarrow> annotation_merge_columns dups annotations);
          joined = (\<lambda>annotations.
            case snd (annotation_get_annotations data index columns) of
              Inl e \<Rightarrow> Inl e
            | Inr database_df \<Rightarrow> join_on annotations database_df index)
      in
      if Some index = index_name annotations then
        assign (joined annotations) annotations merge
      else
        let old_index = index_name annotations in
        assign (reset_index annotations) annotations (\<lambda>annotations.
        assign (set_index annotations [Some index]) annotations (\<lambda>annotations.
        assign (joined annotations) annotations (\<lambda>annotations.
        assign (reset_index annotations) annotations (\<lambda>annotations.
        assign (set_index annotations [old_index]) annotations merge)))))"

text \<open>\<^verbatim>\<open>Annotatable.initialize_annotations(gene_list, index)\<close> for a given list.\<close>

definition initialize_annotations :: "val list \<Rightarrow> string option \<Rightarrow> frame" where
  "initialize_annotations gene_list index = \<lparr>levels = [(index, gene_list)], cols = []\<rparr>"



text \<open>
  The key column of an aggregation: the column labelled \<open>index\<close> of the table, or, when
  there is no such column, the level of its index of that name.
\<close>

definition key_column :: "frame \<Rightarrow> string \<Rightarrow> val list" where
  "key_column data index =
     (if index \<in> set (labels data) then concat (occurrences data index)
      else concat (map snd (filter (\<lambda>l. fst l = Some index) (levels data))))"

section \<open>The string matcher: \<^verbatim>\<open>difflib.get_close_matches\<close>\<close>

text \<open>
  The matcher of the standard library, for words of fewer than 200 elements (no
  automatic junk heuristic): the similarity of two sequences is \<open>2 * M / T\<close>, where \<open>T\<close>
  is the sum of their lengths and \<open>M\<close> the number of elements in the matching blocks,
  found by taking the longest common block (the one starting earliest in the first
  sequence, then earliest in the second) and recursing to its left and to its right; two
  empty sequences have similarity 1. The possibilities of similarity at least 0.6 are
  returned, at most three, best first, equal similarities ordered by the possibilities
  themselves.
\<close>

fun common_prefix :: "'a list \<Rightarrow> 'a list \<Rightarrow> nat" where
  "common_prefix (x # xs) (y # ys) = (if x = y then Suc (common_prefix xs ys) else 0)"
| "common_prefix xs ys = 0"

definition better_match :: "'a list \<Rightarrow> 'a list \<Rightarrow> nat \<times> nat \<times> nat \<Rightarrow> nat \<times> nat \<Rightarrow> nat \<times> nat \<times> nat" where
  "better_match a b best ij =
     (let k = common_prefix (drop (fst ij) a) (drop (snd ij) b) in
      if k > snd (snd best) then (fst ij, snd ij, k) else best)"

definition find_longest_match :: "'a list \<Rightarrow> 'a list \<Rightarrow> nat \<times> nat \<times> nat" where
  "find_longest_match a b =
     foldl (better_match a b) (0, 0, 0) (List.product [0..<length a] [0..<length b])"

text \<open>
  The number of matched elements with \<open>fuel\<close> levels of recursion; every level matches
  at least one element of the first sequence, so its length is fuel enough.
\<close>

fun matched :: "nat \<Rightarrow> 'a list \<Rightarrow> 'a list \<Rightarrow> nat" where
  "matched 0 a b = 0"
| "matched (Suc fuel) a b =
     (case find_longest_match a b of
        (i, j, k) \<Rightarrow>
          if k = 0 then 0
          else matched fuel (take i a) (take j b) + k
               + matched fuel (drop (i + k) a) (drop (j + k) b))"

definition ratio :: "'a list \<Rightarrow> 'a list \<Rightarrow> rat" where
  "ratio a b =
     (let T = length a + length b in
      if T = 0 then 1 else of_nat (2 * matched (length a) a b) / of_nat T)"

text \<open>
  The elements of an index entry as a sequence: the characters of a string, the
  components of a tuple; a number or a missing value has no length (TypeError).
\<close>

definition elements :: "val list \<Rightarrow> error + val list" where
  "elements entry =
     (case entry of
        [Str s] \<Rightarrow> Inr (map (\<lambda>c. Str [c]) s)
      | [v] \<Rightarrow> Inl TypeError
      | _ \<Rightarrow> Inr entry)"

definition difflib_get_close_matches :: matcher where
  "difflib_get_close_matches word possibilities =
     (case elements word of
        Inl e \<Rightarrow> Inl e
      | Inr b \<Rightarrow>
          (case sequence (map (\<lambda>x. case elements x of
                                     Inl e \<Rightarrow> Inl e | Inr a \<Rightarrow> Inr (ratio a b, x))
                            possibilities) of
             Inl e \<Rightarrow> Inl e
           | Inr scored \<Rightarrow>
               Inr (map snd (take 3 (rev (sort_key (\<lambda>rx. (fst rx, map val_rank (snd rx)))
                      (filter (\<lambda>rx. fst rx \<ge> 6 / 10) scored)))))))"


section \<open>Preconditions and observations used in the statements\<close>

text \<open>
  The preconditions of an aggregation: the key and the value columns are columns of the
  table, whose labels do not repeat; the key is not also the name of the table's index;
  no value column is asked for twice, and one of them is not the key.
\<close>

definition aggregation_pre :: "frame \<Rightarrow> string \<Rightarrow> string list \<Rightarrow> bool" where
  "aggregation_pre data index columns \<longleftrightarrow>
     distinct (labels data) \<and> set columns \<subseteq> set (labels data) \<and> index \<in> set (labels data)
       \<and> index_name data \<noteq> Some index \<and> distinct columns \<and> remove1 index columns \<noteq> []"

text \<open>
  The preconditions when the key is not a column but the name of one level of the
  table's existing index.
\<close>

definition index_aggregation_pre :: "frame \<Rightarrow> string \<Rightarrow> string list \<Rightarrow> bool" where
  "index_aggregation_pre data index columns \<longleftrightarrow>
     distinct (labels data) \<and> set (remove1 index columns) \<subseteq> set (labels data)
       \<and> index \<notin> set (labels data)
       \<and> length (filter (\<lambda>l. fst l = Some index) (levels data)) = 1
       \<and> distinct columns \<and> remove1 index columns \<noteq> []"

text \<open>The values of the column labelled \<open>l\<close>, in a table whose labels do not repeat.\<close>

definition column :: "frame \<Rightarrow> string \<Rightarrow> val list" where
  "column df l = concat (occurrences df l)"

text \<open>
  The table the specification describes for \<^verbatim>\<open>Aggregator.aggregate(table, key_column,
  value_columns, reducer)\<close>, written from its words: the rows are grouped by the value in the
  key column, missing keys dropped; "for each group, for each value column", the reducer
  is applied "to the ordered sequence of values observed across the group's rows"; the
  index of the result is the distinct values of the key column, one row per key. This is
  the second definition that the tables returned by \<^verbatim>\<open>get_annotations\<close> are compared with.
\<close>

definition aggregate_spec :: "frame \<Rightarrow> string \<Rightarrow> string list \<Rightarrow> (val list \<Rightarrow> val) \<Rightarrow> frame" where
  "aggregate_spec table key value_columns reducer =
     \<lparr>levels = [(Some key, group_keys (key_column table key))],
      cols = map (\<lambda>c. (c, map (\<lambda>k. reducer (group_values (key_column table key) (column table c) k))
                          (group_keys (key_column table key))))
               value_columns\<rparr>"




text \<open>
  The table that \<^verbatim>\<open>annotate_genomics\<close> of \<^verbatim>\<open>base.py\<close> joins when \<^verbatim>\<open>fuzzy_match\<close> is
  set: the aggregated table with its index rewritten.
\<close>

definition fuzzy_annotation_table ::
  "matcher \<Rightarrow> frame \<Rightarrow> frame \<Rightarrow> string \<Rightarrow> string list \<Rightarrow> agg \<Rightarrow> error + frame" where
  "fuzzy_annotation_table get_close_matches annotations data index columns agg =
     (case snd (base_get_annotations data index columns agg) of
        Inl e \<Rightarrow> Inl e
      | Inr database_df \<Rightarrow> fuzzy_index get_close_matches annotations database_df)"

text \<open>
  The table that \<^verbatim>\<open>annotate_genomics\<close> of \<^verbatim>\<open>base.py\<close> joins: the aggregated table, with
  its index rewritten when \<^verbatim>\<open>fuzzy_match\<close> is set.
\<close>

definition base_database_df ::
  "matcher \<Rightarrow> frame \<Rightarrow> frame \<Rightarrow> string \<Rightarrow> string list \<Rightarrow> agg \<Rightarrow> bool \<Rightarrow> error + frame" where
  "base_database_df get_close_matches annotations data index columns agg fuzzy_match =
     (case snd (base_get_annotations data index columns agg) of
        Inl e \<Rightarrow> Inl e
      | Inr database_df \<Rightarrow>
          if fuzzy_match then fuzzy_index get_close_matches annotations database_df
          else Inr database_df)"

text \<open>The index entries of a returned table.\<close>

definition result_index :: "error + frame \<Rightarrow> error + val list list" where
  "result_index r = (case r of Inl e \<Rightarrow> Inl e | Inr df \<Rightarrow> Inr (index_entries df))"


section \<open>Example tables\<close>

text \<open>
  The tables of the end-to-end scenario of the specification: a resource with three rows
  and a store initialised with the identifiers \<^verbatim>\<open>G1\<close>, \<^verbatim>\<open>G2\<close>, \<^verbatim>\<open>G3\<close> on the index
  \<^verbatim>\<open>gene_id\<close>; and a resource whose keys are near-identical names.
\<close>

definition go_resource :: frame where
  "go_resource =
     \<lparr>levels = [(None, [Num 0, Num 1, Num 2])],
      cols = [(''gene_id'', [Str ''G1'', Str ''G1'', Str ''G2'']),
              (''go_id'', [Str ''GO:1'', Str ''GO:2'', Str ''GO:3''])]\<rparr>"

definition go_aggregated :: frame where
  "go_aggregated =
     \<lparr>levels = [(Some ''gene_id'', [Str ''G1'', Str ''G2''])],
      cols = [(''go_id'', [Str ''GO:1|GO:2'', Str ''GO:3''])]\<rparr>"

text \<open>The resource of the scenario with \<^verbatim>\<open>gene_id\<close> as its index.\<close>

definition indexed_resource :: frame where
  "indexed_resource =
     \<lparr>levels = [(Some ''gene_id'', [Str ''G1'', Str ''G1'', Str ''G2''])],
      cols = [(''go_id'', [Str ''GO:1'', Str ''GO:2'', Str ''GO:3''])]\<rparr>"

definition gene_store :: frame where
  "gene_store = initialize_annotations [Str ''G1'', Str ''G2'', Str ''G3''] (Some ''gene_id'')"

definition alias_resource :: frame where
  "alias_resource =
     \<lparr>levels = [(None, [Num 0, Num 1])],
      cols = [(''gene_id'', [Str ''G1a'', Str ''G1b'']),
              (''go_id'', [Str ''GO:1'', Str ''GO:2''])]\<rparr>"


definition unmatched_resource :: frame where
  "unmatched_resource =
     \<lparr>levels = [(None, [Num 0])],
      cols = [(''gene_id'', [Str ''XYZ'']), (''go_id'', [Str ''GO:9''])]\<rparr>"

section \<open>Sequences of joins, and what a join brings in\<close>






text \<open>The merge of overlapping columns that ends \<^verbatim>\<open>annotate_genomics\<close>, on its own.\<close>

definition base_merge :: "frame \<Rightarrow> frame \<times> error option" where
  "base_merge annotations =
     (case duplicate_columns annotations of
        Inl e \<Rightarrow> (annotations, Some e)
      | Inr dups \<Rightarrow> base_merge_columns dups annotations)"

definition annotation_merge :: "frame \<Rightarrow> frame \<times> error option" where
  "annotation_merge annotations =
     (case duplicate_columns annotations of
        Inl e \<Rightarrow> (annotations, Some e)
      | Inr dups \<Rightarrow> annotation_merge_columns dups annotations)"









definition name_resource :: frame where
  "name_resource =
     \<lparr>levels = [(None, [Num 0, Num 1, Num 2])],
      cols = [(''gene_name'', [Str ''A'', Str ''A'', Str ''B'']),
              (''go_id'', [Str ''GO:1'', Str ''GO:2'', Str ''GO:3''])]\<rparr>"












section \<open>Proofs: sequence resolution\<close>
lemma gencode_loop_sel:
  "gencode_loop index imp u records d = sel_loop (gencode_key index) (py_in_str ''gene'' index) imp u records d"
  by (induction records arbitrary: d) (auto split: sum.splits)

lemma mirbase_loop_sel:
  "mirbase_loop imp u records d = sel_loop Inr True imp u records d"
  by (induction records arbitrary: d) (auto split: sum.splits)

lemma gencode_seqs_of_sel: "gencode_seqs_of index u records k = seqs_of (gencode_key index) u records k"
  by (simp add: gencode_seqs_of_def seqs_of_def)

lemma mirbase_seqs_of_sel: "mirbase_seqs_of u records k = seqs_of Inr u records k"
  by (simp add: mirbase_seqs_of_def seqs_of_def)

lemma store_shortest:
  "store_sequence True ''shortest'' d key s = Inr (d(key := upd_shortest (d key) s))"
  by (auto simp: store_sequence_def upd_shortest_def split: option.splits)

lemma store_longest:
  "store_sequence True ''longest'' d key s = Inr (d(key := upd_longest (d key) s))"
  by (auto simp: store_sequence_def upd_longest_def split: option.splits)

lemma store_all:
  "not_One (d key) \<Longrightarrow> store_sequence True ''all'' d key s = Inr (d(key := upd_all (d key) s))"
  by (auto simp: store_sequence_def upd_all_def not_One_def split: option.splits seqval.splits)

lemma store_last:
  "\<not> (g \<and> imp \<in> {''shortest'', ''longest'', ''all''}) \<Longrightarrow>
   store_sequence g imp d key s = Inr (d(key := upd_last (d key) s))"
  by (auto simp: store_sequence_def upd_last_def)

lemma sel_loop_pointwise:
  assumes step: "\<And>d key s. \<forall>k. P (d k) \<Longrightarrow> store_sequence g imp d key s = Inr (d(key := upd (d key) s))"
    and pres: "\<And>a s. P a \<Longrightarrow> P (upd a s)"
    and keys: "\<forall>(rid, sq) \<in> set records. \<exists>k. keyf rid = Inr k"
    and inv: "\<forall>k. P (d k)"
  shows "\<exists>d'. sel_loop keyf g imp u records d = Inr d' \<and>
           (\<forall>k. d' k = foldl upd (d k) (seqs_of keyf u records k))"
  using keys inv
proof (induction records arbitrary: d)
  case Nil
  show ?case by (simp add: seqs_of_def)
next
  case (Cons r records)
  obtain rid sq where r: "r = (rid, sq)" by (cases r)
  from Cons.prems(1) r obtain key where key: "keyf rid = Inr key" by auto
  define d1 where "d1 = d(key := upd (d key) (normalise u sq))"
  have inv1: "\<forall>k. P (d1 k)" using Cons.prems(2) pres by (simp add: d1_def)
  have keys1: "\<forall>(rid, sq) \<in> set records. \<exists>k. keyf rid = Inr k" using Cons.prems(1) by simp
  from Cons.IH[OF keys1 inv1] obtain d' where
    d': "sel_loop keyf g imp u records d1 = Inr d'"
        "\<forall>k. d' k = foldl upd (d1 k) (seqs_of keyf u records k)" by blast
  have "sel_loop keyf g imp u (r # records) d = Inr d'"
    using d'(1) step[OF Cons.prems(2)] by (simp add: r key d1_def)
  moreover have "d' k = foldl upd (d k) (seqs_of keyf u (r # records) k)" for k
    using d'(2) by (cases "key = k") (simp_all add: d1_def seqs_of_def r key)
  ultimately show ?case by blast
qed

lemma sel_loop_error:
  "\<not> (\<forall>(rid, sq) \<in> set records. \<exists>k. keyf rid = Inr k) \<Longrightarrow> \<exists>e. sel_loop keyf g imp u records d = Inl e"
proof (induction records arbitrary: d)
  case Nil then show ?case by simp
next
  case (Cons r records)
  obtain rid sq where r: "r = (rid, sq)" by (cases r)
  show ?case
  proof (cases "keyf rid")
    case (Inl e) then show ?thesis by (simp add: r)
  next
    case (Inr key)
    with Cons.prems r have "\<not> (\<forall>(rid, sq) \<in> set records. \<exists>k. keyf rid = Inr k)" by auto
    from Cons.IH[OF this] show ?thesis by (auto simp: r Inr split: sum.splits)
  qed
qed

lemma first_shortest_snoc:
  assumes "first_shortest ss r"
  shows "first_shortest (ss @ [s]) (if length r > length s then s else r)"
proof -
  from assms obtain i where i: "i < length ss" "ss ! i = r"
    "\<forall>j < length ss. length r \<le> length (ss ! j)" "\<forall>j < i. length r < length (ss ! j)"
    by (auto simp: first_shortest_def)
  show ?thesis
  proof (cases "length r > length s")
    case True
    have "\<forall>j < length ss. length s < length (ss ! j)" using i(3) True by fastforce
    then show ?thesis using True unfolding first_shortest_def
      by (intro exI[of _ "length ss"]) (auto simp: nth_append less_Suc_eq intro: less_imp_le)
  next
    case False
    then show ?thesis using i unfolding first_shortest_def
      by (intro exI[of _ i]) (auto simp: nth_append less_Suc_eq)
  qed
qed

lemma first_longest_snoc:
  assumes "first_longest ss r"
  shows "first_longest (ss @ [s]) (if length r < length s then s else r)"
proof -
  from assms obtain i where i: "i < length ss" "ss ! i = r"
    "\<forall>j < length ss. length (ss ! j) \<le> length r" "\<forall>j < i. length (ss ! j) < length r"
    by (auto simp: first_longest_def)
  show ?thesis
  proof (cases "length r < length s")
    case True
    have "\<forall>j < length ss. length (ss ! j) < length s" using i(3) True by fastforce
    then show ?thesis using True unfolding first_longest_def
      by (intro exI[of _ "length ss"]) (auto simp: nth_append less_Suc_eq intro: less_imp_le)
  next
    case False
    then show ?thesis using i unfolding first_longest_def
      by (intro exI[of _ i]) (auto simp: nth_append less_Suc_eq)
  qed
qed

lemma foldl_upd_shortest:
  "ss \<noteq> [] \<Longrightarrow> \<exists>r. foldl upd_shortest None ss = Some (One r) \<and> first_shortest ss r"
proof (induction ss rule: rev_induct)
  case Nil then show ?case by simp
next
  case (snoc s ss)
  show ?case
  proof (cases "ss = []")
    case True
    then show ?thesis by (simp add: upd_shortest_def first_shortest_def)
  next
    case False
    with snoc obtain r where r: "foldl upd_shortest None ss = Some (One r)" "first_shortest ss r" by blast
    have "foldl upd_shortest None (ss @ [s]) = upd_shortest (Some (One r)) s"
      by (simp add: r(1))
    also have "\<dots> = Some (One (if length r > length s then s else r))"
      by (simp add: upd_shortest_def)
    finally show ?thesis using first_shortest_snoc[OF r(2), of s] by blast
  qed
qed

lemma foldl_upd_longest:
  "ss \<noteq> [] \<Longrightarrow> \<exists>r. foldl upd_longest None ss = Some (One r) \<and> first_longest ss r"
proof (induction ss rule: rev_induct)
  case Nil then show ?case by simp
next
  case (snoc s ss)
  show ?case
  proof (cases "ss = []")
    case True
    then show ?thesis by (simp add: upd_longest_def first_longest_def)
  next
    case False
    with snoc obtain r where r: "foldl upd_longest None ss = Some (One r)" "first_longest ss r" by blast
    have "foldl upd_longest None (ss @ [s]) = upd_longest (Some (One r)) s"
      by (simp add: r(1))
    also have "\<dots> = Some (One (if length r < length s then s else r))"
      by (simp add: upd_longest_def)
    finally show ?thesis using first_longest_snoc[OF r(2), of s] by blast
  qed
qed

lemma foldl_upd_all_Many: "foldl upd_all (Some (Many l)) ss = Some (Many (l @ ss))"
  by (induction ss arbitrary: l) (simp_all add: upd_all_def)

lemma foldl_upd_all: "ss \<noteq> [] \<Longrightarrow> foldl upd_all None ss = Some (Many ss)"
proof (cases ss)
  case Nil
  assume "ss \<noteq> []"
  with Nil show ?thesis by simp
next
  case (Cons a list)
  have "upd_all None a = Some (Many [a])" by (simp add: upd_all_def)
  then have "foldl upd_all None (a # list) = foldl upd_all (Some (Many [a])) list" by simp
  then show ?thesis by (simp only: Cons foldl_upd_all_Many) simp
qed

lemma foldl_upd_last: "ss \<noteq> [] \<Longrightarrow> foldl upd_last a ss = Some (One (last ss))"
  by (induction ss rule: rev_induct) (simp_all add: upd_last_def)

lemma sel_loop_selected:
  assumes keys: "\<forall>(rid, sq) \<in> set records. \<exists>k. keyf rid = Inr k"
  shows "\<exists>d. sel_loop keyf True imp u records Map.empty = Inr d \<and>
           (\<forall>k. selected imp (seqs_of keyf u records k) (d k))"
proof -
  consider (s) "imp = ''shortest''" | (l) "imp = ''longest''" | (a) "imp = ''all''"
    | (o) "imp \<notin> {''shortest'', ''longest'', ''all''}" by blast
  then show ?thesis
  proof cases
    case s
    have "\<exists>d. sel_loop keyf True imp u records Map.empty = Inr d \<and>
            (\<forall>k. d k = foldl upd_shortest (Map.empty k) (seqs_of keyf u records k))"
      by (rule sel_loop_pointwise[where P="\<lambda>_. True"]) (simp_all add: s store_shortest keys)
    then show ?thesis using foldl_upd_shortest by (auto simp: selected_def s)
  next
    case l
    have "\<exists>d. sel_loop keyf True imp u records Map.empty = Inr d \<and>
            (\<forall>k. d k = foldl upd_longest (Map.empty k) (seqs_of keyf u records k))"
      by (rule sel_loop_pointwise[where P="\<lambda>_. True"]) (simp_all add: l store_longest keys)
    then show ?thesis using foldl_upd_longest by (auto simp: selected_def l)
  next
    case a
    have pres: "\<And>a s. not_One a \<Longrightarrow> not_One (upd_all a s)"
      by (auto simp: not_One_def upd_all_def split: option.splits seqval.splits)
    have "\<exists>d. sel_loop keyf True imp u records Map.empty = Inr d \<and>
            (\<forall>k. d k = foldl upd_all (Map.empty k) (seqs_of keyf u records k))"
      by (rule sel_loop_pointwise[where P=not_One]) (simp_all add: a store_all keys pres, simp add: not_One_def)
    then show ?thesis using foldl_upd_all by (auto simp: selected_def a)
  next
    case o
    have "\<exists>d. sel_loop keyf True imp u records Map.empty = Inr d \<and>
            (\<forall>k. d k = foldl upd_last (Map.empty k) (seqs_of keyf u records k))"
      by (rule sel_loop_pointwise[where P="\<lambda>_. True"]) (use o in \<open>simp_all add: store_last keys\<close>)
    then show ?thesis using foldl_upd_last o by (auto simp: selected_def)
  qed
qed


text \<open>A header that lacks the field the key is read from stops the loop with IndexError.\<close>

lemma gencode_key_error:
  "index \<in> {''gene_id'', ''gene_name'', ''transcript_id'', ''transcript_name''} \<Longrightarrow>
   gencode_key index rid = Inl e \<Longrightarrow> e = IndexError"
  by (auto simp: gencode_key_def item_def Let_def split: if_splits sum.splits)

lemma sel_loop_raises:
  assumes step: "\<And>d key s. \<forall>k. P (d k) \<Longrightarrow> store_sequence g imp d key s = Inr (d(key := upd (d key) s))"
    and pres: "\<And>a s. P a \<Longrightarrow> P (upd a s)"
    and err: "\<And>rid e. keyf rid = Inl e \<Longrightarrow> e = E"
    and bad: "\<not> (\<forall>(rid, sq) \<in> set records. \<exists>k. keyf rid = Inr k)"
    and inv: "\<forall>k. P (d k)"
  shows "sel_loop keyf g imp u records d = Inl E"
  using bad inv
proof (induction records arbitrary: d)
  case Nil then show ?case by simp
next
  case (Cons r records)
  obtain rid sq where r: "r = (rid, sq)" by (cases r)
  show ?case
  proof (cases "keyf rid")
    case (Inl e)
    with err[OF Inl] show ?thesis by (simp add: r)
  next
    case (Inr key)
    with Cons.prems(1) r have b: "\<not> (\<forall>(rid, sq) \<in> set records. \<exists>k. keyf rid = Inr k)" by auto
    define d1 where "d1 = d(key := upd (d key) (normalise u sq))"
    have inv1: "\<forall>k. P (d1 k)" using Cons.prems(2) pres by (simp add: d1_def)
    have "store_sequence g imp d key (normalise u sq) = Inr d1"
      using step[OF Cons.prems(2)] by (simp add: d1_def)
    then have "sel_loop keyf g imp u (r # records) d = sel_loop keyf g imp u records d1"
      by (simp add: r Inr)
    with Cons.IH[OF b inv1] show ?thesis by simp
  qed
qed

lemma sel_loop_bad_key:
  assumes err: "\<And>rid e. keyf rid = Inl e \<Longrightarrow> e = E"
    and bad: "\<not> (\<forall>(rid, sq) \<in> set records. \<exists>k. keyf rid = Inr k)"
  shows "sel_loop keyf g imp u records Map.empty = Inl E"
proof -
  consider (s) "g \<and> imp = ''shortest''" | (l) "g \<and> imp = ''longest''" | (a) "g \<and> imp = ''all''"
    | (o) "\<not> (g \<and> imp \<in> {''shortest'', ''longest'', ''all''})" by blast
  then show ?thesis
  proof cases
    case s
    show ?thesis
      by (rule sel_loop_raises[where P="\<lambda>_. True" and upd=upd_shortest, OF _ _ err bad])
         (simp_all add: s store_shortest)
  next
    case l
    show ?thesis
      by (rule sel_loop_raises[where P="\<lambda>_. True" and upd=upd_longest, OF _ _ err bad])
         (simp_all add: l store_longest)
  next
    case a
    have pres: "\<And>a s. not_One a \<Longrightarrow> not_One (upd_all a s)"
      by (auto simp: not_One_def upd_all_def split: option.splits seqval.splits)
    show ?thesis
      by (rule sel_loop_raises[where P=not_One and upd=upd_all, OF _ _ err bad])
         (simp_all add: a store_all pres, simp add: not_One_def)
  next
    case o
    show ?thesis
      by (rule sel_loop_raises[where P="\<lambda>_. True" and upd=upd_last, OF _ _ err bad])
         (use o in \<open>simp_all add: store_last\<close>)
  qed
qed

lemma sel_loop_last:
  assumes keys: "\<forall>(rid, sq) \<in> set records. \<exists>k. keyf rid = Inr k"
  shows "\<exists>d. sel_loop keyf False imp u records Map.empty = Inr d \<and>
           (\<forall>k. d k = (if seqs_of keyf u records k = [] then None
                        else Some (One (last (seqs_of keyf u records k)))))"
proof -
  have "\<exists>d. sel_loop keyf False imp u records Map.empty = Inr d \<and>
          (\<forall>k. d k = foldl upd_last (Map.empty k) (seqs_of keyf u records k))"
    by (rule sel_loop_pointwise[where P="\<lambda>_. True"]) (simp_all add: store_last keys)
  then show ?thesis using foldl_upd_last by fastforce
qed

section \<open>Claim C9\<close>

text \<open>
  Claim C9, as amended. \<^verbatim>\<open>MirBase.get_sequences\<close>, on the records of \<^verbatim>\<open>hairpin.fa\<close> and
  for every requested identifier space, returns a dictionary in which the entry of every
  identifier is the first shortest sequence (policy \<^verbatim>\<open>shortest\<close>), the first longest
  sequence (\<^verbatim>\<open>longest\<close>) or the list of all sequences in stream order (\<^verbatim>\<open>all\<close>) among
  the records that collapse to it; an identifier no record collapses to has no entry.
  \<^verbatim>\<open>GENCODE.get_sequences\<close>, for the omic \<^verbatim>\<open>GE\<close> or \<^verbatim>\<open>LNC\<close> with its FASTA file and
  records whose headers all have the field the key is read from, does the same for the
  gene-level spaces \<^verbatim>\<open>gene_id\<close> and \<^verbatim>\<open>gene_name\<close>; for the transcript-level spaces
  \<^verbatim>\<open>transcript_id\<close> and \<^verbatim>\<open>transcript_name\<close> it applies no policy, and the entry of an
  identifier is the sequence of the last record that collapses to it. When a header lacks
  the field, the call raises IndexError.
\<close>

theorem sequence_selection_policy:
  "(file_resources ''hairpin.fa'' = Some records \<longrightarrow>
      (\<exists>d. mirbase_get_sequences file_resources policy u omic index = Inr d \<and>
           (\<forall>k. selected policy (mirbase_seqs_of u records k) (d k))))
   \<and> (index \<in> {''gene_id'', ''gene_name''} \<and>
        (omic = ''GE'' \<and> file_resources ''transcripts.fa'' = Some records \<or>
         omic = ''LNC'' \<and> file_resources ''lncRNA_transcripts.fa'' = Some records) \<and>
        (\<forall>(rid, sq) \<in> set records. \<exists>k. gencode_key index rid = Inr k) \<longrightarrow>
      (\<exists>d. gencode_get_sequences file_resources policy u omic index = Inr d \<and>
           (\<forall>k. selected policy (gencode_seqs_of index u records k) (d k))))
   \<and> (index \<in> {''transcript_id'', ''transcript_name''} \<and>
        (omic = ''GE'' \<and> file_resources ''transcripts.fa'' = Some records \<or>
         omic = ''LNC'' \<and> file_resources ''lncRNA_transcripts.fa'' = Some records) \<and>
        (\<forall>(rid, sq) \<in> set records. \<exists>k. gencode_key index rid = Inr k) \<longrightarrow>
      (\<exists>d. gencode_get_sequences file_resources policy u omic index = Inr d \<and>
           (\<forall>k. d k = (if gencode_seqs_of index u records k = [] then None
                        else Some (One (last (gencode_seqs_of index u records k)))))))
   \<and> (index \<in> {''gene_id'', ''gene_name'', ''transcript_id'', ''transcript_name''} \<and>
        (omic = ''GE'' \<and> file_resources ''transcripts.fa'' = Some records \<or>
         omic = ''LNC'' \<and> file_resources ''lncRNA_transcripts.fa'' = Some records) \<and>
        \<not> (\<forall>(rid, sq) \<in> set records. \<exists>k. gencode_key index rid = Inr k) \<longrightarrow>
      gencode_get_sequences file_resources policy u omic index = Inl IndexError)"
proof (intro conjI impI)
  assume "file_resources ''hairpin.fa'' = Some records"
  then show "\<exists>d. mirbase_get_sequences file_resources policy u omic index = Inr d \<and>
           (\<forall>k. selected policy (mirbase_seqs_of u records k) (d k))"
    using sel_loop_selected[of records Inr policy u]
    by (simp add: mirbase_get_sequences_def mirbase_loop_sel mirbase_seqs_of_sel split_beta)
next
  assume a: "index \<in> {''gene_id'', ''gene_name''} \<and>
        (omic = ''GE'' \<and> file_resources ''transcripts.fa'' = Some records \<or>
         omic = ''LNC'' \<and> file_resources ''lncRNA_transcripts.fa'' = Some records) \<and>
        (\<forall>(rid, sq) \<in> set records. \<exists>k. gencode_key index rid = Inr k)"
  then have g: "py_in_str ''gene'' index" by auto
  from a have keys: "\<forall>(rid, sq) \<in> set records. \<exists>k. gencode_key index rid = Inr k" by blast
  from a have "gencode_get_sequences file_resources policy u omic index
      = sel_loop (gencode_key index) True policy u records Map.empty"
    by (auto simp: gencode_get_sequences_def gencode_loop_sel g)
  then show "\<exists>d. gencode_get_sequences file_resources policy u omic index = Inr d \<and>
           (\<forall>k. selected policy (gencode_seqs_of index u records k) (d k))"
    using sel_loop_selected[OF keys, of policy u] by (simp add: gencode_seqs_of_sel)
next
  assume a: "index \<in> {''transcript_id'', ''transcript_name''} \<and>
        (omic = ''GE'' \<and> file_resources ''transcripts.fa'' = Some records \<or>
         omic = ''LNC'' \<and> file_resources ''lncRNA_transcripts.fa'' = Some records) \<and>
        (\<forall>(rid, sq) \<in> set records. \<exists>k. gencode_key index rid = Inr k)"
  then have g: "\<not> py_in_str ''gene'' index" by auto
  from a have keys: "\<forall>(rid, sq) \<in> set records. \<exists>k. gencode_key index rid = Inr k" by blast
  from a have "gencode_get_sequences file_resources policy u omic index
      = sel_loop (gencode_key index) False policy u records Map.empty"
    by (auto simp: gencode_get_sequences_def gencode_loop_sel g)
  then show "\<exists>d. gencode_get_sequences file_resources policy u omic index = Inr d \<and>
           (\<forall>k. d k = (if gencode_seqs_of index u records k = [] then None
                        else Some (One (last (gencode_seqs_of index u records k)))))"
    using sel_loop_last[OF keys, of policy u] by (simp only: gencode_seqs_of_sel)
next
  assume a: "index \<in> {''gene_id'', ''gene_name'', ''transcript_id'', ''transcript_name''} \<and>
        (omic = ''GE'' \<and> file_resources ''transcripts.fa'' = Some records \<or>
         omic = ''LNC'' \<and> file_resources ''lncRNA_transcripts.fa'' = Some records) \<and>
        \<not> (\<forall>(rid, sq) \<in> set records. \<exists>k. gencode_key index rid = Inr k)"
  then have idx: "index \<in> {''gene_id'', ''gene_name'', ''transcript_id'', ''transcript_name''}"
    and bad: "\<not> (\<forall>(rid, sq) \<in> set records. \<exists>k. gencode_key index rid = Inr k)" by blast+
  from a have "gencode_get_sequences file_resources policy u omic index
      = sel_loop (gencode_key index) (py_in_str ''gene'' index) policy u records Map.empty"
    by (auto simp: gencode_get_sequences_def gencode_loop_sel)
  also have "\<dots> = Inl IndexError"
    by (rule sel_loop_bad_key[OF gencode_key_error[OF idx] bad])
  finally show "gencode_get_sequences file_resources policy u omic index = Inl IndexError" .
qed

text \<open>
  Three records of one identifier with sequences of length 5, 8 and 3, as hairpin records
  for \<^verbatim>\<open>MirBase\<close> and as transcripts of one gene for \<^verbatim>\<open>GENCODE\<close>: the theorem applies,
  and the three policies select the length-3 sequence, the length-8 sequence and the list
  of all three. Two transcript records of one transcript identifier: the entry is the
  sequence of the second.
\<close>

theorem sequence_selection_policy_witness:
  "(\<exists>d. mirbase_get_sequences
          (Map.empty(''hairpin.fa'' \<mapsto>
             [(''mir-1'', ''ACGUA''), (''mir-1'', ''ACGUACGU''), (''mir-1'', ''ACG'')]))
          ''shortest'' False ''MIR'' ''gene_name'' = Inr d \<and>
        selected ''shortest'' [''ACGUA'', ''ACGUACGU'', ''ACG''] (d ''mir-1''))
   \<and> dict_get (mirbase_get_sequences
          (Map.empty(''hairpin.fa'' \<mapsto>
             [(''mir-1'', ''ACGUA''), (''mir-1'', ''ACGUACGU''), (''mir-1'', ''ACG'')]))
          ''shortest'' False ''MIR'' ''gene_name'') ''mir-1'' = Inr (Some (One ''ACG''))
   \<and> dict_get (mirbase_get_sequences
          (Map.empty(''hairpin.fa'' \<mapsto>
             [(''mir-1'', ''ACGUA''), (''mir-1'', ''ACGUACGU''), (''mir-1'', ''ACG'')]))
          ''longest'' False ''MIR'' ''gene_name'') ''mir-1'' = Inr (Some (One ''ACGUACGU''))
   \<and> dict_get (mirbase_get_sequences
          (Map.empty(''hairpin.fa'' \<mapsto>
             [(''mir-1'', ''ACGUA''), (''mir-1'', ''ACGUACGU''), (''mir-1'', ''ACG'')]))
          ''all'' False ''MIR'' ''gene_name'') ''mir-1''
        = Inr (Some (Many [''ACGUA'', ''ACGUACGU'', ''ACG'']))
   \<and> (\<exists>d. gencode_get_sequences
          (Map.empty(''transcripts.fa'' \<mapsto>
             [(''ENST1.1|ENSG1.1|-|-|T-201|G1|'', ''ACGTA''),
              (''ENST2.1|ENSG1.1|-|-|T-202|G1|'', ''ACGTACGT''),
              (''ENST3.1|ENSG1.1|-|-|T-203|G1|'', ''ACG'')]))
          ''shortest'' False ''GE'' ''gene_id'' = Inr d \<and>
        selected ''shortest'' [''ACGTA'', ''ACGTACGT'', ''ACG''] (d ''ENSG1''))
   \<and> dict_get (gencode_get_sequences
          (Map.empty(''transcripts.fa'' \<mapsto>
             [(''ENST1.1|ENSG1.1|-|-|T-201|G1|'', ''ACGTA''),
              (''ENST2.1|ENSG1.1|-|-|T-202|G1|'', ''ACGTACGT''),
              (''ENST3.1|ENSG1.1|-|-|T-203|G1|'', ''ACG'')]))
          ''shortest'' False ''GE'' ''gene_id'') ''ENSG1'' = Inr (Some (One ''ACG''))
   \<and> dict_get (gencode_get_sequences
          (Map.empty(''transcripts.fa'' \<mapsto>
             [(''ENST1.1|ENSG1.1|-|-|T-201|G1|'', ''ACGTA''),
              (''ENST2.1|ENSG1.1|-|-|T-202|G1|'', ''ACGTACGT''),
              (''ENST3.1|ENSG1.1|-|-|T-203|G1|'', ''ACG'')]))
          ''longest'' False ''GE'' ''gene_name'') ''G1'' = Inr (Some (One ''ACGTACGT''))
   \<and> dict_get (gencode_get_sequences
          (Map.empty(''transcripts.fa'' \<mapsto>
             [(''ENST1.1|ENSG1.1|-|-|T-201|G1|'', ''ACGTA''),
              (''ENST2.1|ENSG1.1|-|-|T-202|G1|'', ''ACGTACGT''),
              (''ENST3.1|ENSG1.1|-|-|T-203|G1|'', ''ACG'')]))
          ''all'' False ''GE'' ''gene_id'') ''ENSG1''
        = Inr (Some (Many [''ACGTA'', ''ACGTACGT'', ''ACG'']))
   \<and> (\<exists>d. gencode_get_sequences
          (Map.empty(''transcripts.fa'' \<mapsto>
             [(''ENST1.1|ENSG1.1|-|-|T-201|G1|'', ''ACG''),
              (''ENST1.2|ENSG1.1|-|-|T-201|G1|'', ''ACGTACGT'')]))
          ''shortest'' False ''GE'' ''transcript_id'' = Inr d \<and>
        d ''ENST1'' = Some (One ''ACGTACGT''))"
proof -
  let ?recs = "[(''mir-1'', ''ACGUA''), (''mir-1'', ''ACGUACGU''), (''mir-1'', ''ACG'')]"
  let ?fr = "Map.empty(''hairpin.fa'' \<mapsto> ?recs)"
  let ?grecs = "[(''ENST1.1|ENSG1.1|-|-|T-201|G1|'', ''ACGTA''),
              (''ENST2.1|ENSG1.1|-|-|T-202|G1|'', ''ACGTACGT''),
              (''ENST3.1|ENSG1.1|-|-|T-203|G1|'', ''ACG'')]"
  let ?gfr = "Map.empty(''transcripts.fa'' \<mapsto> ?grecs)"
  let ?trecs = "[(''ENST1.1|ENSG1.1|-|-|T-201|G1|'', ''ACG''),
              (''ENST1.2|ENSG1.1|-|-|T-201|G1|'', ''ACGTACGT'')]"
  let ?tfr = "Map.empty(''transcripts.fa'' \<mapsto> ?trecs)"
  have m: "\<exists>d. mirbase_get_sequences ?fr ''shortest'' False ''MIR'' ''gene_name'' = Inr d \<and>
        selected ''shortest'' (mirbase_seqs_of False ?recs ''mir-1'') (d ''mir-1'')"
    using sequence_selection_policy[where file_resources = ?fr and records = ?recs
        and policy = "''shortest''" and u = False and omic = "''MIR''" and index = "''gene_name''"]
    by auto
  have ms: "mirbase_seqs_of False ?recs ''mir-1'' = [''ACGUA'', ''ACGUACGU'', ''ACG'']"
    by (simp add: mirbase_seqs_of_def normalise_def)
  have k1: "gencode_key ''gene_id'' ''ENST1.1|ENSG1.1|-|-|T-201|G1|'' = Inr ''ENSG1''"
    and k2: "gencode_key ''gene_id'' ''ENST2.1|ENSG1.1|-|-|T-202|G1|'' = Inr ''ENSG1''"
    and k3: "gencode_key ''gene_id'' ''ENST3.1|ENSG1.1|-|-|T-203|G1|'' = Inr ''ENSG1''"
    by (simp_all add: gencode_key_def item_def)
  have n1: "gencode_key ''gene_name'' ''ENST1.1|ENSG1.1|-|-|T-201|G1|'' = Inr ''G1''"
    and n2: "gencode_key ''gene_name'' ''ENST2.1|ENSG1.1|-|-|T-202|G1|'' = Inr ''G1''"
    and n3: "gencode_key ''gene_name'' ''ENST3.1|ENSG1.1|-|-|T-203|G1|'' = Inr ''G1''"
    by (simp_all add: gencode_key_def item_def)
  have t1: "gencode_key ''transcript_id'' ''ENST1.1|ENSG1.1|-|-|T-201|G1|'' = Inr ''ENST1''"
    and t2: "gencode_key ''transcript_id'' ''ENST1.2|ENSG1.1|-|-|T-201|G1|'' = Inr ''ENST1''"
    by (simp_all add: gencode_key_def item_def)
  have g: "\<exists>d. gencode_get_sequences ?gfr ''shortest'' False ''GE'' ''gene_id'' = Inr d \<and>
        selected ''shortest'' (gencode_seqs_of ''gene_id'' False ?grecs ''ENSG1'') (d ''ENSG1'')"
    using sequence_selection_policy[where file_resources = ?gfr and records = ?grecs
        and policy = "''shortest''" and u = False and omic = "''GE''" and index = "''gene_id''"]
    by (auto simp: k1 k2 k3)
  have gs: "gencode_seqs_of ''gene_id'' False ?grecs ''ENSG1'' = [''ACGTA'', ''ACGTACGT'', ''ACG'']"
    by (simp add: gencode_seqs_of_def normalise_def k1 k2 k3)
  have t: "\<exists>d. gencode_get_sequences ?tfr ''shortest'' False ''GE'' ''transcript_id'' = Inr d \<and>
        d ''ENST1'' = (if gencode_seqs_of ''transcript_id'' False ?trecs ''ENST1'' = [] then None
           else Some (One (last (gencode_seqs_of ''transcript_id'' False ?trecs ''ENST1''))))"
    using sequence_selection_policy[where file_resources = ?tfr and records = ?trecs
        and policy = "''shortest''" and u = False and omic = "''GE''"
        and index = "''transcript_id''"]
    by (auto simp: t1 t2)
  have ts: "gencode_seqs_of ''transcript_id'' False ?trecs ''ENST1'' = [''ACG'', ''ACGTACGT'']"
    by (simp add: gencode_seqs_of_def normalise_def t1 t2)
  have e1: "dict_get (mirbase_get_sequences ?fr ''shortest'' False ''MIR'' ''gene_name'') ''mir-1''
      = Inr (Some (One ''ACG''))"
    and e2: "dict_get (mirbase_get_sequences ?fr ''longest'' False ''MIR'' ''gene_name'') ''mir-1''
      = Inr (Some (One ''ACGUACGU''))"
    and e3: "dict_get (mirbase_get_sequences ?fr ''all'' False ''MIR'' ''gene_name'') ''mir-1''
      = Inr (Some (Many [''ACGUA'', ''ACGUACGU'', ''ACG'']))"
    by (simp_all add: dict_get_def mirbase_get_sequences_def store_sequence_def normalise_def)
  have f1: "dict_get (gencode_get_sequences ?gfr ''shortest'' False ''GE'' ''gene_id'') ''ENSG1''
      = Inr (Some (One ''ACG''))"
    and f3: "dict_get (gencode_get_sequences ?gfr ''all'' False ''GE'' ''gene_id'') ''ENSG1''
      = Inr (Some (Many [''ACGTA'', ''ACGTACGT'', ''ACG'']))"
    by (simp_all add: dict_get_def gencode_get_sequences_def store_sequence_def normalise_def
        k1 k2 k3)
  have f2: "dict_get (gencode_get_sequences ?gfr ''longest'' False ''GE'' ''gene_name'') ''G1''
      = Inr (Some (One ''ACGTACGT''))"
    by (simp add: dict_get_def gencode_get_sequences_def store_sequence_def normalise_def
        n1 n2 n3)
  from m ms g gs t ts e1 e2 e3 f1 f2 f3 show ?thesis by simp
qed

text \<open>
  Claim C9 as stated fails for the transcript-level identifier spaces of GENCODE: two
  records whose transcript identifiers differ only in the version suffix collapse to one
  key, and under policy \<^verbatim>\<open>shortest\<close> the later, longer sequence replaces the earlier,
  shorter one. It also fails on a stream with a header without separators: the call
  raises IndexError.
\<close>

theorem sequence_selection_policy_counterexample:
  "dict_get (gencode_get_sequences
      (Map.empty(''transcripts.fa'' \<mapsto>
         [(''ENST1.1|ENSG1.1|-|-|T-201|G|'', ''ACG''),
          (''ENST1.2|ENSG1.1|-|-|T-201|G|'', ''ACGTACGT'')]))
      ''shortest'' True ''GE'' ''transcript_id'') ''ENST1'' = Inr (Some (One ''ACGTACGT''))
   \<and> gencode_seqs_of ''transcript_id'' True
        [(''ENST1.1|ENSG1.1|-|-|T-201|G|'', ''ACG''),
         (''ENST1.2|ENSG1.1|-|-|T-201|G|'', ''ACGTACGT'')] ''ENST1'' = [''ACG'', ''ACGTACGT'']
   \<and> \<not> selected ''shortest'' [''ACG'', ''ACGTACGT''] (Some (One ''ACGTACGT''))
   \<and> gencode_get_sequences (Map.empty(''transcripts.fa'' \<mapsto> [(''ENSG1'', ''ACG'')]))
        ''shortest'' True ''GE'' ''gene_id'' = Inl IndexError"
proof -
  have k1: "gencode_key ''transcript_id'' ''ENST1.1|ENSG1.1|-|-|T-201|G|'' = Inr ''ENST1''"
    by (simp add: gencode_key_def item_def)
  have k2: "gencode_key ''transcript_id'' ''ENST1.2|ENSG1.1|-|-|T-201|G|'' = Inr ''ENST1''"
    by (simp add: gencode_key_def item_def)
  have k3: "gencode_key ''gene_id'' ''ENSG1'' = Inl IndexError"
    by (simp add: gencode_key_def item_def)
  have "\<not> first_shortest [''ACG'', ''ACGTACGT''] ''ACGTACGT''"
    by (auto simp: first_shortest_def less_Suc_eq numeral_2_eq_2)
  then show ?thesis
    by (simp add: dict_get_def gencode_get_sequences_def k1 k2 k3 store_sequence_def
        normalise_def replace_U_T_def gencode_seqs_of_def selected_def)
qed

section \<open>Proofs: aggregation\<close>

subsection \<open>Sequencing\<close>

lemma sequence_Inr_map: "sequence (map (\<lambda>x. Inr (f x)) xs) = Inr (map f xs)"
  by (induction xs) simp_all

lemma sequence_map_Inr: "sequence (map Inr xs) = Inr xs"
  by (induction xs) simp_all

lemma sequence_Inr_D: "sequence rs = Inr xs \<Longrightarrow> rs = map Inr xs"
  by (induction rs arbitrary: xs) (auto split: sum.splits)

lemma sequence_Inr_iff:
  "sequence rs = Inr xs \<longleftrightarrow> rs = map Inr xs"
  using sequence_Inr_D sequence_map_Inr by metis

lemma sequence_Inr_length: "sequence rs = Inr xs \<Longrightarrow> length xs = length rs"
  by (simp add: sequence_Inr_iff)

subsection \<open>First appearances\<close>

lemma set_unique_from: "set (unique_from seen xs) = set seen \<union> set xs"
  by (induction seen xs rule: unique_from.induct) auto

lemma distinct_unique_from: "distinct seen \<Longrightarrow> distinct (unique_from seen xs)"
  by (induction seen xs rule: unique_from.induct) auto

lemma unique_from_snoc:
  "unique_from seen (xs @ [x]) =
     (if x \<in> set seen \<union> set xs then unique_from seen xs else unique_from seen xs @ [x])"
  by (induction seen xs rule: unique_from.induct) (auto simp: set_unique_from)

lemma first_appearances_Nil: "first_appearances [] = []"
  by (simp add: first_appearances_def)

lemma first_appearances_snoc:
  "first_appearances (xs @ [x]) =
     (if x \<in> set xs then first_appearances xs else first_appearances xs @ [x])"
proof -
  let ?P = "\<lambda>i. (xs @ [x]) ! i \<notin> set (take i (xs @ [x]))"
  have a: "filter ?P [0..<length xs]
         = filter (\<lambda>i. xs ! i \<notin> set (take i xs)) [0..<length xs]"
    by (rule filter_cong) (auto simp: nth_append)
  have b: "map (\<lambda>i. (xs @ [x]) ! i) (filter (\<lambda>i. xs ! i \<notin> set (take i xs)) [0..<length xs])
         = map (\<lambda>i. xs ! i) (filter (\<lambda>i. xs ! i \<notin> set (take i xs)) [0..<length xs])"
    by (rule map_cong) (auto simp: nth_append)
  have c: "?P (length xs) \<longleftrightarrow> x \<notin> set xs" by simp
  have "first_appearances (xs @ [x])
      = map (\<lambda>i. (xs @ [x]) ! i) (filter ?P ([0..<length xs] @ [length xs]))"
    unfolding first_appearances_def by simp
  also have "\<dots> = map (\<lambda>i. (xs @ [x]) ! i) (filter ?P [0..<length xs])
                  @ (if x \<in> set xs then [] else [x])"
    unfolding filter_append map_append using c by simp
  also have "map (\<lambda>i. (xs @ [x]) ! i) (filter ?P [0..<length xs]) = first_appearances xs"
    unfolding a b first_appearances_def ..
  finally show ?thesis by simp
qed

lemma unique_first_appearances: "unique xs = first_appearances xs"
  unfolding unique_def
  by (induction xs rule: rev_induct)
     (simp_all add: first_appearances_Nil first_appearances_snoc unique_from_snoc)

lemma set_unique: "set (unique xs) = set xs"
  by (simp add: unique_def set_unique_from)

lemma distinct_unique: "distinct (unique xs)"
  by (simp add: unique_def distinct_unique_from)

subsection \<open>Groups\<close>

lemma distinct_group_keys: "distinct (group_keys ks)"
  by (simp add: group_keys_def)



lemma reduce_column_concat:
  "reduce_column (\<lambda>vs. Inr (f vs)) ks vs = Inr (map (\<lambda>k. f (group_values ks vs k)) (group_keys ks))"
  by (simp add: reduce_column_def sequence_Inr_map)

lemma reduce_column_length:
  "reduce_column f ks vs = Inr r \<Longrightarrow> length r = length (group_keys ks)"
  by (auto simp: reduce_column_def dest: sequence_Inr_length)

subsection \<open>Frames\<close>

lemma occurrences_select:
  "occurrences (df\<lparr>cols := concat (map (\<lambda>l. filter (\<lambda>c. fst c = l) (cols df)) ls)\<rparr>) x
     = concat (map (\<lambda>l. if l = x then occurrences df x else []) ls)"
proof (induction ls)
  case Nil
  show ?case by (simp add: occurrences_def)
next
  case (Cons l ls)
  have "filter (\<lambda>c. fst c = x) (filter (\<lambda>c. fst c = l) (cols df))
      = (if l = x then filter (\<lambda>c. fst c = x) (cols df) else [])"
    by (auto simp: filter_empty_conv)
  with Cons show ?case by (simp add: occurrences_def)
qed

lemma occurrences_Nil_iff: "occurrences df x = [] \<longleftrightarrow> x \<notin> set (labels df)"
  by (auto simp: occurrences_def labels_def filter_empty_conv)

lemma concat_if_single:
  assumes "length (concat (map (\<lambda>l. if l = x then occ else []) ls)) \<le> 1" "x \<in> set ls" "occ \<noteq> []"
  shows "concat (map (\<lambda>l. if l = x then occ else []) ls) = occ"
  using assms
proof (induction ls)
  case Nil then show ?case by simp
next
  case (Cons l ls)
  show ?case
  proof (cases "l = x")
    case True
    with Cons.prems have len: "length occ + length (concat (map (\<lambda>l. if l = x then occ else []) ls)) \<le> 1"
      by simp
    with \<open>occ \<noteq> []\<close> have "length occ = 1" "concat (map (\<lambda>l. if l = x then occ else []) ls) = []"
      by (cases occ; simp)+
    with True show ?thesis by simp
  next
    case False
    with Cons show ?thesis by simp
  qed
qed

lemma label_or_level_only_level:
  "occurrences df key = [] \<Longrightarrow> levels df = [(Some key, ks)] \<Longrightarrow> label_or_level df key = Inr ks"
  by (simp add: label_or_level_def)

lemma groupby_agg_dict_levels:
  "groupby_agg_dict df by spec = Inr r \<Longrightarrow> label_or_level df by = Inr ks
     \<Longrightarrow> levels r = [(Some by, group_keys ks)]"
  by (auto simp: groupby_agg_dict_def split: sum.splits if_splits)

lemma groupby_aggregate_levels:
  "groupby_aggregate df by f = Inr r \<Longrightarrow> label_or_level df by = Inr ks
     \<Longrightarrow> levels r = [(Some by, group_keys ks)]"
  by (auto simp: groupby_aggregate_def split: sum.splits if_splits)

lemma groupby_agg_dict_key:
  "groupby_agg_dict df by spec = Inr r \<Longrightarrow> \<exists>ks. label_or_level df by = Inr ks"
  by (auto simp: groupby_agg_dict_def split: sum.splits)

lemma groupby_aggregate_key:
  "groupby_aggregate df by f = Inr r \<Longrightarrow> \<exists>ks. label_or_level df by = Inr ks"
  by (auto simp: groupby_aggregate_def split: sum.splits)

lemma labels_select:
  "labels (df\<lparr>cols := concat (map (\<lambda>l. filter (\<lambda>c. fst c = l) (cols df)) ls)\<rparr>)
     = concat (map (\<lambda>l. filter (\<lambda>x. x = l) (labels df)) ls)"
  by (induction ls) (simp_all add: labels_def filter_map comp_def)

lemma set_cols_select:
  "set (concat (map (\<lambda>l. filter (\<lambda>c. fst c = l) cs) ls)) = {c \<in> set cs. fst c \<in> set ls}"
  by (induction ls) auto

lemma occ_sel:
  "cols df1 = concat (map (\<lambda>l. filter (\<lambda>c. fst c = l) (cols data)) ls)
   \<Longrightarrow> occurrences df1 x = concat (map (\<lambda>l. if l = x then occurrences data x else []) ls)"
  using occurrences_select[of data ls x] by (simp add: occurrences_def)

text \<open>The table that reaches \<open>groupby\<close> after a successful \<open>set_index\<close> on a selection.\<close>

lemma set_index_select:
  assumes sel: "cols df1 = concat (map (\<lambda>l. filter (\<lambda>c. fst c = l) (cols data)) ls)"
    and idx: "index \<in> set ls" "index \<in> set (labels data)"
    and si: "set_index df1 [Some index] = Inr df2"
  shows "levels df2 = [(Some index, key_column data index)]"
    and "occurrences df2 index = []"
    and "set (cols df2) \<subseteq> {c \<in> set (cols data). fst c \<in> set ls \<and> fst c \<noteq> index}"
    and "length (occurrences data index) = 1"
proof -
  have occ: "occurrences df1 index = concat (map (\<lambda>l. if l = index then occurrences data index else []) ls)"
    by (rule occ_sel[OF sel])
  from si have len: "length (occurrences df1 index) \<le> 1"
    by (auto simp: set_index_def split: if_splits)
  have ne: "occurrences data index \<noteq> []" using idx(2) by (simp add: occurrences_Nil_iff)
  have eq: "occurrences df1 index = occurrences data index"
    using concat_if_single[OF len[unfolded occ] idx(1) ne] occ by simp
  from si have df2: "df2 = \<lparr>levels = [(Some index, concat (occurrences df1 index))],
                cols = filter (\<lambda>c. fst c \<noteq> index) (cols df1)\<rparr>"
    by (auto simp: set_index_def split: if_splits)
  show "levels df2 = [(Some index, key_column data index)]"
    using idx(2) by (simp add: df2 eq key_column_def)
  show "occurrences df2 index = []"
    by (simp add: df2 occurrences_def filter_empty_conv)
  show "set (cols df2) \<subseteq> {c \<in> set (cols data). fst c \<in> set ls \<and> fst c \<noteq> index}"
    by (auto simp: df2 sel)
  show "length (occurrences data index) = 1"
    using len ne eq by (cases "occurrences data index") auto
qed

text \<open>What a successful aggregation of \<^verbatim>\<open>base.py\<close> went through.\<close>

lemma base_get_annotations_Inr:
  assumes "snd (base_get_annotations data index columns agg) = Inr df"
  obtains df2 where
    "levels df2 = [(Some index, key_column data index)]"
    "label_or_level df2 index = Inr (key_column data index)"
    "set (cols df2) \<subseteq> {c \<in> set (cols data). fst c \<in> set (remove1 index columns) \<and> fst c \<noteq> index}"
    "set columns \<subseteq> set (labels data)" "index \<in> set (labels data)"
    "(case agg of Concat \<Rightarrow> groupby_agg_dict df2 index
           (map (\<lambda>col. (col, \<lambda>vs. Inr (concat_uniques vs)))
              (unique (if index \<in> set columns then remove1 index columns else columns)))
     | Named f \<Rightarrow> groupby_aggregate df2 index f) = Inr df"
proof -
  let ?cs = "if index \<in> set columns then remove1 index columns else columns"
  from assms have sub: "set columns \<subseteq> set (labels data)"
    by (auto simp: base_get_annotations_def split: if_splits)
  from assms sub obtain df1 where df1: "getitem_list data (?cs @ [index]) = Inr df1"
    by (auto simp: base_get_annotations_def Let_def split: sum.splits)
  then have idx: "index \<in> set (labels data)"
    and sel: "cols df1 = concat (map (\<lambda>l. filter (\<lambda>c. fst c = l) (cols data)) (?cs @ [index]))"
    and lv1: "levels df1 = levels data"
    by (auto simp: getitem_list_def split: if_splits)
  let ?g = "\<lambda>d. case agg of Concat \<Rightarrow> groupby_agg_dict d index
           (map (\<lambda>col. (col, \<lambda>vs. Inr (concat_uniques vs))) (unique ?cs))
         | Named f \<Rightarrow> groupby_aggregate d index f"
  have gk: "\<exists>ks. label_or_level d index = Inr ks" if "?g d = Inr df" for d
    using that groupby_agg_dict_key groupby_aggregate_key by (cases agg) auto
  show thesis
  proof (cases "Some index \<noteq> index_name data")
    case True
    with assms sub df1 idx obtain df2 where si: "set_index df1 [Some index] = Inr df2" and g: "?g df2 = Inr df"
      by (auto simp: base_get_annotations_def Let_def split: sum.splits)
    have i: "index \<in> set (?cs @ [index])" by simp
    note r = set_index_select[OF sel i idx si]
    have "set (?cs @ [index]) \<subseteq> insert index (set (remove1 index columns))"
      by (auto simp: set_remove1_eq dest: notin_set_remove1) (metis in_set_remove1)
    with r(3) have c: "set (cols df2) \<subseteq> {c \<in> set (cols data). fst c \<in> set (remove1 index columns) \<and> fst c \<noteq> index}"
      by auto
    show ?thesis
      by (rule that[OF r(1) label_or_level_only_level[OF r(2) r(1)] c sub idx g])
  next
    case False
    with assms sub df1 idx have g: "?g df1 = Inr df"
      by (auto simp: base_get_annotations_def Let_def split: sum.splits)
    from False obtain l where l: "levels data = [l]" "fst l = Some index"
      by (auto simp: index_name_def split: list.splits)
    have ne: "occurrences data index \<noteq> []" using idx by (simp add: occurrences_Nil_iff)
    have "occurrences df1 index \<noteq> []"
      unfolding occ_sel[OF sel] using ne by simp
    then have "label_or_level df1 index = Inl ValueError"
      using l lv1 by (simp add: label_or_level_def)
    with gk[OF g] show ?thesis by simp
  qed
qed

lemma base_get_annotations_levels:
  assumes "snd (base_get_annotations data index columns agg) = Inr df"
  shows "levels df = [(Some index, group_keys (key_column data index))]"
proof -
  from assms obtain df2 where
    k: "label_or_level df2 index = Inr (key_column data index)" and
    g: "(case agg of Concat \<Rightarrow> groupby_agg_dict df2 index
           (map (\<lambda>col. (col, \<lambda>vs. Inr (concat_uniques vs)))
              (unique (if index \<in> set columns then remove1 index columns else columns)))
     | Named f \<Rightarrow> groupby_aggregate df2 index f) = Inr df"
    by (rule base_get_annotations_Inr)
  show ?thesis using g k groupby_agg_dict_levels groupby_aggregate_levels
    by (cases agg) auto
qed

lemma set_index_single:
  assumes "set_index df1 [Some index] = Inr df2"
  shows "levels df2 = [(Some index, concat (occurrences df1 index))]"
    and "cols df2 = filter (\<lambda>c. fst c \<noteq> index) (cols df1)"
    and "length (occurrences df1 index) = 1"
    and "occurrences df2 index = []"
proof -
  from assms have in_l: "index \<in> set (labels df1)" and len: "length (occurrences df1 index) \<le> 1"
    and df2: "df2 = \<lparr>levels = [(Some index, concat (occurrences df1 index))],
                cols = filter (\<lambda>c. fst c \<noteq> index) (cols df1)\<rparr>"
    by (auto simp: set_index_def split: if_splits)
  show "levels df2 = [(Some index, concat (occurrences df1 index))]"
    and "cols df2 = filter (\<lambda>c. fst c \<noteq> index) (cols df1)"
    by (simp_all add: df2)
  show "length (occurrences df1 index) = 1"
    using len in_l occurrences_Nil_iff[of df1 index] by (cases "occurrences df1 index") auto
  show "occurrences df2 index = []"
    by (simp add: df2 occurrences_def filter_empty_conv)
qed

lemma filter_items_Inr:
  assumes "filter_items data ls = Inr df1"
  shows "levels df1 = levels data"
    and "df1 = data \<or>
         cols df1 = concat (map (\<lambda>l. filter (\<lambda>c. fst c = l) (cols data))
                      (filter (\<lambda>l. l \<in> set (labels data)) ls))"
  using assms by (auto simp: filter_items_def Let_def split: if_splits)

lemma filter_items_cols_subset:
  "filter_items data ls = Inr df1 \<Longrightarrow> set (cols df1) \<subseteq> set (cols data)"
  by (auto simp: filter_items_def Let_def split: if_splits)

lemma filter_items_labels_subset:
  "filter_items data ls = Inr df1 \<Longrightarrow> set (labels df1) \<subseteq> set (labels data)"
  using filter_items_cols_subset[of data ls df1] by (auto simp: labels_def)

lemma filter_items_occurrences:
  assumes f: "filter_items data ls = Inr df1" and i: "index \<in> set ls" "index \<in> set (labels data)"
    and len: "length (occurrences df1 index) \<le> 1"
  shows "occurrences df1 index = occurrences data index"
proof -
  have ne: "occurrences data index \<noteq> []" using i(2) by (simp add: occurrences_Nil_iff)
  from filter_items_Inr(2)[OF f] show ?thesis
  proof
    assume "df1 = data" then show ?thesis by simp
  next
    let ?keep = "filter (\<lambda>l. l \<in> set (labels data)) ls"
    assume sel: "cols df1 = concat (map (\<lambda>l. filter (\<lambda>c. fst c = l) (cols data)) ?keep)"
    have k: "index \<in> set ?keep" using i by simp
    show ?thesis
      using concat_if_single[OF len[unfolded occ_sel[OF sel]] k ne] occ_sel[OF sel] by simp
  qed
qed

lemma filter_items_occurrences_ne:
  assumes f: "filter_items data ls = Inr df1" and i: "index \<in> set ls" "index \<in> set (labels data)"
  shows "occurrences df1 index \<noteq> []"
proof -
  have ne: "occurrences data index \<noteq> []" using i(2) by (simp add: occurrences_Nil_iff)
  from filter_items_Inr(2)[OF f] show ?thesis
  proof
    assume "df1 = data" then show ?thesis using ne by simp
  next
    let ?keep = "filter (\<lambda>l. l \<in> set (labels data)) ls"
    assume sel: "cols df1 = concat (map (\<lambda>l. filter (\<lambda>c. fst c = l) (cols data)) ?keep)"
    have k: "index \<in> set ?keep" using i by simp
    then show ?thesis unfolding occ_sel[OF sel] using ne by auto
  qed
qed

lemma check_unique_index_Inr: "check_unique_index r = Inr df \<Longrightarrow> df = r"
  by (simp add: check_unique_index_def split: if_splits)

text \<open>What a successful aggregation of \<^verbatim>\<open>annotation.py\<close> went through.\<close>

lemma annotation_get_annotations_Inr:
  assumes "snd (annotation_get_annotations data index columns) = Inr df"
  obtains cs d where
    "columns = Some cs"
    "label_or_level d index = Inr (key_column data index)"
    "set (cols d) \<subseteq> set (cols data)"
    "groupby_agg_dict d index
       (map (\<lambda>k. (k, \<lambda>vs. Inr (concat_uniques vs)))
          (unique (if index \<in> set cs then remove1 index cs else cs))) = Inr df"
proof -
  from assms obtain cs where cs: "columns = Some cs"
    by (cases columns) (auto simp: annotation_get_annotations_def)
  let ?ls = "if index \<in> set cs then cs else cs @ [index]"
  let ?cs = "if index \<in> set cs then remove1 index cs else cs"
  let ?spec = "map (\<lambda>k. (k, \<lambda>vs. Inr (concat_uniques vs))) (unique ?cs)"
  from assms cs obtain df1 where f: "filter_items data ?ls = Inr df1"
    by (auto simp: annotation_get_annotations_def split: sum.splits if_splits)
  have il: "index \<in> set ?ls" by simp
  note lv1 = filter_items_Inr(1)[OF f]
  note sub1 = filter_items_cols_subset[OF f]
  show thesis
  proof (cases "Some index \<noteq> index_name data \<and> index \<in> set (labels data)")
    case True
    with assms cs f obtain df2 r where si: "set_index df1 [Some index] = Inr df2"
      and g: "groupby_agg_dict df2 index ?spec = Inr r" and c: "check_unique_index r = Inr df"
      by (auto simp: annotation_get_annotations_def Let_def split: sum.splits if_splits)
    note s = set_index_single[OF si]
    have "occurrences df1 index = occurrences data index"
      using filter_items_occurrences[OF f il] True s(3) by simp
    then have lv: "levels df2 = [(Some index, key_column data index)]"
      using s(1) True by (simp add: key_column_def)
    have sub: "set (cols df2) \<subseteq> set (cols data)" using s(2) sub1 by auto
    show ?thesis
      using that[OF cs label_or_level_only_level[OF s(4) lv] sub] g check_unique_index_Inr[OF c]
      by simp
  next
    case False
    with assms cs f obtain r where
      g: "groupby_agg_dict df1 index ?spec = Inr r" and c: "check_unique_index r = Inr df"
      by (auto simp: annotation_get_annotations_def Let_def split: sum.splits if_splits)
    from groupby_agg_dict_key[OF g] obtain ks where ks: "label_or_level df1 index = Inr ks" by blast
    have nl: "index \<notin> set (labels data)"
    proof
      assume a: "index \<in> set (labels data)"
      with False obtain l where l: "levels data = [l]" "fst l = Some index"
        by (auto simp: index_name_def split: list.splits)
      have "label_or_level df1 index = Inl ValueError"
        using filter_items_occurrences_ne[OF f il a] l lv1 by (simp add: label_or_level_def)
      with ks show False by simp
    qed
    then have "index \<notin> set (labels df1)" using filter_items_labels_subset[OF f] by auto
    then have o: "occurrences df1 index = []" by (simp add: occurrences_Nil_iff)
    have "ks = key_column data index"
      using ks o nl lv1 by (auto simp: label_or_level_def key_column_def split: list.splits)
    with ks have k: "label_or_level df1 index = Inr (key_column data index)" by simp
    show ?thesis using that[OF cs k sub1] g check_unique_index_Inr[OF c] by simp
  qed
qed



lemma index_entries_single: "levels df = [(n, ks)] \<Longrightarrow> index_entries df = map (\<lambda>k. [k]) ks"
  by (auto simp: index_entries_def nrows_def intro: nth_equalityI)

lemma distinct_index_entries_single:
  "levels df = [(n, ks)] \<Longrightarrow> distinct (index_entries df) = distinct ks"
  by (simp add: index_entries_single distinct_map inj_on_def)

lemma groupby_agg_dict_total:
  "groupby_agg_dict d by (map (\<lambda>c. (c, \<lambda>vs. Inr (f vs))) cs) =
     (case label_or_level d by of
        Inl e \<Rightarrow> Inl e
      | Inr ks \<Rightarrow>
          if \<not> set cs \<subseteq> set (labels d) then Inl KeyError
          else if cs = [] then Inl ValueError
          else if \<exists>c \<in> set cs. length (occurrences d c) > 1 then Inl AttributeError
          else Inr \<lparr>levels = [(Some by, group_keys ks)],
                    cols = concat (map (\<lambda>c. map (\<lambda>vs. (c, map (\<lambda>k. f (group_values ks vs k)) (group_keys ks)))
                                           (occurrences d c)) cs)\<rparr>)"
proof -
  have "concat (map (\<lambda>(c, g). map (\<lambda>vs. case reduce_column g ks vs of
                                     Inl e \<Rightarrow> Inl e | Inr r \<Rightarrow> Inr (c, r)) (occurrences d c))
           (map (\<lambda>c. (c, \<lambda>vs. Inr (f vs))) cs))
      = map Inr (concat (map (\<lambda>c. map (\<lambda>vs. (c, map (\<lambda>k. f (group_values ks vs k)) (group_keys ks)))
                                           (occurrences d c)) cs))" for ks :: "val list"
    by (induction cs) (simp_all add: reduce_column_concat comp_def)
  then show ?thesis
    by (auto simp: groupby_agg_dict_def sequence_map_Inr comp_def split: sum.splits)
qed

lemma groupby_agg_dict_cols:
  assumes "groupby_agg_dict d by (map (\<lambda>c. (c, \<lambda>vs. Inr (f vs))) cs) = Inr df"
    and "label_or_level d by = Inr ks"
  shows "\<forall>(c, rs) \<in> set (cols df). \<exists>vs. (c, vs) \<in> set (cols d) \<and> c \<in> set cs \<and>
            rs = map (\<lambda>k. f (group_values ks vs k)) (group_keys ks)"
  using assms unfolding groupby_agg_dict_total
  by (fastforce simp: occurrences_def split: if_splits)

text \<open>Tables whose labels do not repeat: a label names one column.\<close>

lemma unique_distinct: "distinct xs \<Longrightarrow> unique xs = xs"
  unfolding unique_def
  by (induction xs rule: rev_induct) (simp_all add: unique_from_snoc)

lemma filter_label_distinct:
  "distinct (map fst cs) \<Longrightarrow> l \<in> fst ` set cs \<Longrightarrow>
   filter (\<lambda>c. fst c = l) cs = [(l, concat (map snd (filter (\<lambda>c. fst c = l) cs)))]"
proof (induction cs)
  case Nil then show ?case by simp
next
  case (Cons c cs)
  show ?case
  proof (cases "fst c = l")
    case True
    with Cons.prems have "l \<notin> fst ` set cs" by auto
    then have "filter (\<lambda>c. fst c = l) cs = []" by (auto simp: filter_empty_conv)
    with True show ?thesis by (cases c) simp
  next
    case False
    with Cons show ?thesis by auto
  qed
qed

lemma select_column:
  "distinct (labels d) \<Longrightarrow> l \<in> set (labels d) \<Longrightarrow>
   filter (\<lambda>c. fst c = l) (cols d) = [(l, column d l)]"
  using filter_label_distinct[of "cols d" l] by (simp add: labels_def column_def occurrences_def)

lemma select_columns:
  "distinct (labels d) \<Longrightarrow> set ls \<subseteq> set (labels d) \<Longrightarrow>
   concat (map (\<lambda>l. filter (\<lambda>c. fst c = l) (cols d)) ls) = map (\<lambda>l. (l, column d l)) ls"
  by (induction ls) (simp_all add: select_column)

lemma cols_by_labels:
  assumes "distinct (labels d)"
  shows "cols d = map (\<lambda>l. (l, column d l)) (labels d)"
proof -
  have "map (\<lambda>l. (l, column d l)) (labels d) = map (\<lambda>c. (fst c, column d (fst c))) (cols d)"
    by (simp add: labels_def comp_def)
  also have "\<dots> = map (\<lambda>c. c) (cols d)"
  proof (rule map_cong[OF refl])
    fix c assume c: "c \<in> set (cols d)"
    then have "fst c \<in> set (labels d)" by (simp add: labels_def)
    from select_column[OF assms this]
    have "filter (\<lambda>x. fst x = fst c) (cols d) = [(fst c, column d (fst c))]" .
    moreover have "c \<in> set (filter (\<lambda>x. fst x = fst c) (cols d))" using c by simp
    ultimately show "(fst c, column d (fst c)) = c" by simp
  qed
  finally show ?thesis by simp
qed

lemma occurrences_by_labels:
  "distinct ls \<Longrightarrow> cols d = map (\<lambda>l. (l, h l)) ls \<Longrightarrow>
   occurrences d c = (if c \<in> set ls then [h c] else [])"
proof (induction ls arbitrary: d)
  case Nil then show ?case by (simp add: occurrences_def)
next
  case (Cons l ls)
  define d' where "d' = d\<lparr>cols := map (\<lambda>l. (l, h l)) ls\<rparr>"
  have "occurrences d' c = (if c \<in> set ls then [h c] else [])"
    by (rule Cons.IH) (use Cons.prems in \<open>simp_all add: d'_def\<close>)
  then show ?case using Cons.prems by (auto simp: occurrences_def d'_def)
qed

text \<open>The table that reaches \<^verbatim>\<open>groupby\<close> when the key is a column.\<close>

lemma filter_items_selected:
  assumes d: "distinct (labels data)" and dl: "distinct ls"
  shows "\<exists>df1. filter_items data ls = Inr df1 \<and> levels df1 = levels data \<and>
           cols df1 = map (\<lambda>l. (l, column data l)) (filter (\<lambda>l. l \<in> set (labels data)) ls)"
proof -
  let ?keep = "filter (\<lambda>l. l \<in> set (labels data)) ls"
  show ?thesis
  proof (cases "?keep = labels data")
    case True
    then show ?thesis using cols_by_labels[OF d] by (simp add: filter_items_def)
  next
    case False
    have "set ?keep \<subseteq> set (labels data)" by auto
    from False select_columns[OF d this] d show ?thesis
      by (simp add: filter_items_def Let_def)
  qed
qed

lemma concat_singletons: "\<forall>x \<in> set xs. g x = [k x] \<Longrightarrow> concat (map g xs) = map k xs"
  by (induction xs) simp_all

lemma groupby_agg_dict_by_labels:
  assumes k: "label_or_level d by = Inr ks"
    and c: "cols d = map (\<lambda>l. (l, h l)) vc" and dv: "distinct vc" and ne: "vc \<noteq> []"
  shows "groupby_agg_dict d by (map (\<lambda>c. (c, \<lambda>vs. Inr (f vs))) (unique vc))
         = Inr \<lparr>levels = [(Some by, group_keys ks)],
                cols = map (\<lambda>c. (c, map (\<lambda>k. f (group_values ks (h c) k)) (group_keys ks))) vc\<rparr>"
proof -
  have l: "labels d = vc" by (simp add: labels_def c comp_def)
  have "concat (map (\<lambda>c. map (\<lambda>vs. (c, map (\<lambda>k. f (group_values ks vs k)) (group_keys ks)))
                          (occurrences d c)) vc)
      = map (\<lambda>c. (c, map (\<lambda>k. f (group_values ks (h c) k)) (group_keys ks))) vc"
  proof -
    show ?thesis
      by (rule concat_singletons) (simp add: occurrences_by_labels[OF dv c])
  qed
  moreover have "\<forall>c \<in> set vc. \<not> length (occurrences d c) > 1"
    by (simp add: occurrences_by_labels[OF dv c])
  ultimately show ?thesis
    unfolding groupby_agg_dict_total by (simp add: k l ne unique_distinct[OF dv])
qed




text \<open>Under the preconditions, the table that reaches \<^verbatim>\<open>groupby\<close> in \<^verbatim>\<open>base.py\<close>.\<close>

lemma base_get_annotations_grouped:
  assumes pre: "aggregation_pre data index columns"
  obtains df2 where
    "snd (base_get_annotations data index columns agg) =
       (case agg of
          Concat \<Rightarrow> groupby_agg_dict df2 index
                      (map (\<lambda>col. (col, \<lambda>vs. Inr (concat_uniques vs)))
                         (unique (remove1 index columns)))
        | Named f \<Rightarrow> groupby_aggregate df2 index f)"
    "label_or_level df2 index = Inr (key_column data index)"
    "cols df2 = map (\<lambda>l. (l, column data l)) (remove1 index columns)"
proof -
  let ?cs = "if index \<in> set columns then remove1 index columns else columns"
  from pre have d: "distinct (labels data)" and sub: "set columns \<subseteq> set (labels data)"
    and idx: "index \<in> set (labels data)" and nm: "index_name data \<noteq> Some index"
    and dc: "distinct columns" and ne: "remove1 index columns \<noteq> []"
    by (auto simp: aggregation_pre_def)
  have cse: "?cs = remove1 index columns" by (simp add: remove1_idem)
  have cs: "set ?cs = set columns - {index}" "distinct ?cs"
    using dc by (auto simp: remove1_idem)
  have sl: "set (?cs @ [index]) \<subseteq> set (labels data)" using sub idx cs(1) by auto
  define df1 where "df1 = data\<lparr>cols := map (\<lambda>l. (l, column data l)) (?cs @ [index])\<rparr>"
  have g: "getitem_list data (?cs @ [index]) = Inr df1"
    using sl select_columns[OF d sl] by (auto simp: getitem_list_def df1_def)
  have c1: "cols df1 = map (\<lambda>l. (l, column data l)) (?cs @ [index])" by (simp add: df1_def)
  have dl: "distinct (?cs @ [index])" using cs by auto
  have o1: "occurrences df1 index = [column data index]"
    using occurrences_by_labels[OF dl c1, of index] by simp
  have il1: "index \<in> set (labels df1)" by (simp add: labels_def c1)
  define df2 where "df2 = \<lparr>levels = [(Some index, column data index)],
                cols = map (\<lambda>l. (l, column data l)) (remove1 index columns)\<rparr>"
  have "filter (\<lambda>c. fst c \<noteq> index) (cols df1) = map (\<lambda>l. (l, column data l)) (remove1 index columns)"
    using cs(1) cse by (auto simp: c1 filter_map comp_def filter_id_conv)
  then have si: "set_index df1 [Some index] = Inr df2"
    using il1 o1 by (simp add: set_index_def df2_def)
  have "index \<notin> set (remove1 index columns)" using dc by simp
  then have "occurrences df2 index = []"
    by (auto simp: occurrences_def df2_def filter_empty_conv)
  then have k: "label_or_level df2 index = Inr (key_column data index)"
    using idx by (simp add: label_or_level_def df2_def key_column_def column_def)
  have "snd (base_get_annotations data index columns agg) =
       (case agg of
          Concat \<Rightarrow> groupby_agg_dict df2 index
                      (map (\<lambda>col. (col, \<lambda>vs. Inr (concat_uniques vs)))
                         (unique (remove1 index columns)))
        | Named f \<Rightarrow> groupby_aggregate df2 index f)"
    using sub g si idx nm cse by (auto simp: base_get_annotations_def Let_def split: agg.splits)
  then show thesis by (rule that[OF _ k]) (simp add: df2_def)
qed

lemma base_get_annotations_concat:
  assumes pre: "aggregation_pre data index columns"
  shows "snd (base_get_annotations data index columns Concat)
         = Inr (aggregate_spec data index (remove1 index columns) concat_uniques)"
proof -
  from pre have dc: "distinct columns" and ne: "remove1 index columns \<noteq> []"
    by (auto simp: aggregation_pre_def)
  from base_get_annotations_grouped[OF pre, of Concat] obtain df2 where
    r: "snd (base_get_annotations data index columns Concat) =
          groupby_agg_dict df2 index
            (map (\<lambda>col. (col, \<lambda>vs. Inr (concat_uniques vs))) (unique (remove1 index columns)))"
    and k: "label_or_level df2 index = Inr (key_column data index)"
    and c: "cols df2 = map (\<lambda>l. (l, column data l)) (remove1 index columns)"
    by auto
  have dv: "distinct (remove1 index columns)" using dc by simp
  show ?thesis
    unfolding r groupby_agg_dict_by_labels[OF k c dv ne] by (simp add: aggregate_spec_def)
qed


lemma check_unique_index_aggregate_spec:
  "check_unique_index (aggregate_spec data index vc f) = Inr (aggregate_spec data index vc f)"
proof -
  have "levels (aggregate_spec data index vc f) = [(Some index, group_keys (key_column data index))]"
    by (simp add: aggregate_spec_def)
  from distinct_index_entries_single[OF this] distinct_group_keys
  show ?thesis by (simp add: check_unique_index_def)
qed

lemma annotation_get_annotations_concat:
  assumes pre: "aggregation_pre data index columns \<or> index_aggregation_pre data index columns"
  shows "snd (annotation_get_annotations data index (Some columns))
         = Inr (aggregate_spec data index (remove1 index columns) concat_uniques)"
proof -
  let ?cs = "if index \<in> set columns then remove1 index columns else columns"
  let ?ls = "if index \<in> set columns then columns else columns @ [index]"
  let ?vc = "remove1 index columns"
  let ?spec = "map (\<lambda>k. (k, \<lambda>vs. Inr (concat_uniques vs))) (unique ?cs)"
  from pre have d: "distinct (labels data)" and dc: "distinct columns" and ne: "?vc \<noteq> []"
    and subv: "set ?vc \<subseteq> set (labels data)"
    by (auto simp: aggregation_pre_def index_aggregation_pre_def dest: notin_set_remove1)
  have cse: "?cs = ?vc" by (simp add: remove1_idem)
  have dv: "distinct ?vc" using dc by simp
  have dl: "distinct ?ls" using dc by auto
  have nb: "index \<notin> set ?vc" using dc by simp
  from filter_items_selected[OF d dl] obtain df1 where
    f: "filter_items data ?ls = Inr df1" and lv1: "levels df1 = levels data"
    and c1: "cols df1 = map (\<lambda>l. (l, column data l)) (filter (\<lambda>l. l \<in> set (labels data)) ?ls)"
    by blast
  have vcf: "filter (\<lambda>l. l \<noteq> index) ?ls = ?vc"
  proof (cases "index \<in> set columns")
    case True
    then show ?thesis using dc by (simp add: distinct_remove1_removeAll removeAll_filter_not_eq)
        (metis (mono_tags, lifting) filter_cong)
  next
    case False
    then have "filter (\<lambda>l. l \<noteq> index) columns = columns" by (auto simp: filter_id_conv)
    with False show ?thesis by (simp add: remove1_idem)
  qed
  from pre show ?thesis
  proof
    assume "aggregation_pre data index columns"
    then have sub: "set columns \<subseteq> set (labels data)"
      and idx: "index \<in> set (labels data)" and nm: "index_name data \<noteq> Some index"
      by (auto simp: aggregation_pre_def)
    have "filter (\<lambda>l. l \<in> set (labels data)) ?ls = ?ls" using sub idx by (auto simp: filter_id_conv)
    with c1 have c1': "cols df1 = map (\<lambda>l. (l, column data l)) ?ls" by simp
    have o1: "occurrences df1 index = [column data index]"
      using occurrences_by_labels[OF dl c1', of index] by simp
    have il1: "index \<in> set (labels df1)" by (auto simp: labels_def c1')
    define df2 where "df2 = \<lparr>levels = [(Some index, column data index)],
                cols = map (\<lambda>l. (l, column data l)) ?vc\<rparr>"
    have "filter (\<lambda>c. fst c \<noteq> index) (cols df1) = map (\<lambda>l. (l, column data l)) ?vc"
      unfolding c1' filter_map comp_def fst_conv vcf ..
    then have si: "set_index df1 [Some index] = Inr df2"
      using il1 o1 by (simp add: set_index_def df2_def)
    have "occurrences df2 index = []"
      using nb by (auto simp: occurrences_def df2_def filter_empty_conv)
    then have k: "label_or_level df2 index = Inr (key_column data index)"
      using idx by (simp add: label_or_level_def df2_def key_column_def column_def)
    have c2: "cols df2 = map (\<lambda>l. (l, column data l)) ?vc" by (simp add: df2_def)
    have "groupby_agg_dict df2 index ?spec = Inr (aggregate_spec data index ?vc concat_uniques)"
      unfolding cse groupby_agg_dict_by_labels[OF k c2 dv ne] by (simp add: aggregate_spec_def)
    then show ?thesis
      using f si idx nm check_unique_index_aggregate_spec[of data index ?vc concat_uniques]
      by (cases "index \<in> set columns") (simp_all add: annotation_get_annotations_def Let_def)
  next
    assume "index_aggregation_pre data index columns"
    then have nl: "index \<notin> set (labels data)"
      and one: "length (filter (\<lambda>l. fst l = Some index) (levels data)) = 1"
      by (auto simp: index_aggregation_pre_def)
    have "filter (\<lambda>l. l \<in> set (labels data)) ?ls = filter (\<lambda>l. l \<noteq> index) ?ls"
    proof (rule filter_cong[OF refl])
      fix l assume "l \<in> set ?ls"
      then have "l = index \<or> l \<in> set ?vc" using dc by (auto split: if_splits)
      then show "(l \<in> set (labels data)) = (l \<noteq> index)" using nl subv nb by auto
    qed
    with c1 vcf have c1': "cols df1 = map (\<lambda>l. (l, column data l)) ?vc" by simp
    have o1: "occurrences df1 index = []"
      using occurrences_by_labels[OF dv c1', of index] nb by simp
    from one obtain lv where lv: "filter (\<lambda>l. fst l = Some index) (levels data) = [lv]"
      by (cases "filter (\<lambda>l. fst l = Some index) (levels data)") auto
    have k: "label_or_level df1 index = Inr (key_column data index)"
      using nl by (simp add: label_or_level_def o1 lv1 lv key_column_def)
    have "groupby_agg_dict df1 index ?spec = Inr (aggregate_spec data index ?vc concat_uniques)"
      unfolding cse groupby_agg_dict_by_labels[OF k c1' dv ne] by (simp add: aggregate_spec_def)
    then show ?thesis
      using f nl check_unique_index_aggregate_spec[of data index ?vc concat_uniques]
      by (cases "index \<in> set columns") (simp_all add: annotation_get_annotations_def Let_def)
  qed
qed


lemma group_values_strings:
  "group_values ks (map Str ss) k = map Str (map snd (filter (\<lambda>kv. fst kv = k) (zip ks ss)))"
  unfolding group_values_def
proof (induction ks arbitrary: ss)
  case Nil show ?case by simp
next
  case (Cons a ks) show ?case by (cases ss) (simp_all add: Cons)
qed

section \<open>Claim C1\<close>




section \<open>Claim C10\<close>

text \<open>
  Claim C10, as amended. A call of \<^verbatim>\<open>get_annotations\<close> that passes its column check
  (\<^verbatim>\<open>base.py\<close>: every entry of the list is a column of the table; \<^verbatim>\<open>annotation.py\<close>:
  the column selection does not raise, as when the labels of the table do not repeat)
  leaves the caller's list without the first occurrence of the index name, one element
  shorter, when the name is in the list; a list that does not contain the name is left
  unchanged by every call.
\<close>

theorem columns_list_mutation:
  "(set columns \<subseteq> set (labels data) \<longrightarrow>
      fst (base_get_annotations data index columns agg)
        = (if index \<in> set columns then remove1 index columns else columns))
   \<and> (distinct (labels data) \<longrightarrow>
      fst (annotation_get_annotations data index (Some columns))
        = Some (if index \<in> set columns then remove1 index columns else columns))
   \<and> (index \<in> set columns \<longrightarrow> Suc (length (remove1 index columns)) = length columns)
   \<and> (index \<notin> set columns \<longrightarrow>
        fst (base_get_annotations data index columns agg) = columns \<and>
        fst (annotation_get_annotations data index (Some columns)) = Some columns)"
proof (intro conjI impI)
  assume "set columns \<subseteq> set (labels data)"
  then show "fst (base_get_annotations data index columns agg)
        = (if index \<in> set columns then remove1 index columns else columns)"
    by (simp add: base_get_annotations_def Let_def)
next
  assume "distinct (labels data)"
  then show "fst (annotation_get_annotations data index (Some columns))
        = Some (if index \<in> set columns then remove1 index columns else columns)"
    by (auto simp: annotation_get_annotations_def filter_items_def Let_def split: sum.splits)
next
  assume "index \<in> set columns"
  then show "Suc (length (remove1 index columns)) = length columns"
    by (simp add: length_remove1) (cases columns; simp)
next
  assume "index \<notin> set columns"
  then show "fst (base_get_annotations data index columns agg) = columns"
    by (simp add: base_get_annotations_def Let_def)
next
  assume "index \<notin> set columns"
  then show "fst (annotation_get_annotations data index (Some columns)) = Some columns"
    by (auto simp: annotation_get_annotations_def Let_def split: sum.splits)
qed

text \<open>
  Asking the resource of the end-to-end scenario for \<^verbatim>\<open>["gene_id", "go_id"]\<close> on the
  index \<^verbatim>\<open>gene_id\<close> leaves the list \<^verbatim>\<open>["go_id"]\<close>, in both versions.
\<close>

theorem columns_list_mutation_witness:
  "set [''gene_id'', ''go_id''] \<subseteq> set (labels go_resource) \<and> distinct (labels go_resource)
   \<and> fst (base_get_annotations go_resource ''gene_id'' [''gene_id'', ''go_id''] Concat) = [''go_id'']
   \<and> fst (annotation_get_annotations go_resource ''gene_id'' (Some [''gene_id'', ''go_id'']))
        = Some [''go_id'']"
proof -
  have a: "set [''gene_id'', ''go_id''] \<subseteq> set (labels go_resource)" by code_simp
  have b: "distinct (labels go_resource)" by code_simp
  from columns_list_mutation[of "[''gene_id'', ''go_id'']" go_resource "''gene_id''" Concat] a b
  show ?thesis by simp
qed

text \<open>
  Claim C10 as stated fails in \<^verbatim>\<open>base.py\<close>: when the list names a column the table does
  not have, the call raises before the index name is removed, and the list is unchanged
  although it contains the index name.
\<close>

theorem columns_list_mutation_counterexample:
  "fst (base_get_annotations go_resource ''gene_id'' [''gene_id'', ''bogus''] Concat)
     = [''gene_id'', ''bogus'']
   \<and> snd (base_get_annotations go_resource ''gene_id'' [''gene_id'', ''bogus''] Concat)
     = Inl PyException"
  by code_simp

lemma first_appearances_map_inj:
  assumes "inj f"
  shows "first_appearances (map f xs) = map f (first_appearances xs)"
proof (induction xs rule: rev_induct)
  case Nil
  show ?case by (simp add: first_appearances_Nil)
next
  case (snoc x xs)
  have "f x \<in> f ` set xs \<longleftrightarrow> x \<in> set xs" using assms by (auto dest: injD)
  with snoc show ?case by (simp add: first_appearances_snoc)
qed

lemma join_unique_strings:
  "join_unique (map Str ss) = Inr (Str (join_str ''|'' (first_appearances ss)))"
proof -
  have i: "inj Str" by (simp add: inj_on_def)
  have u: "unique (map Str ss) = map Str (first_appearances ss)"
    by (simp add: unique_first_appearances first_appearances_map_inj[OF i])
  show ?thesis
    by (simp add: join_unique_def u str_repr_def comp_def)
qed

lemma concat_uniques_strings:
  "concat_uniques (map Str ss) = Str (join_str ''|'' (first_appearances ss))"
  by (simp add: concat_uniques_def str_repr_def comp_def)

section \<open>Claim C5\<close>

text \<open>
  Claim C5. Under the preconditions of the aggregation, \<^verbatim>\<open>get_annotations\<close> in concat
  mode returns the table the specification describes: indexed by the distinct keys, with
  one column per requested value column, whose cell for a key is the reducer applied to
  the values of that column in the rows with that key, in row order; the reducer joins the
  first appearances of their string representations with \<^verbatim>\<open>|\<close>. In \<^verbatim>\<open>annotation.py\<close> this
  also holds when the key is the name of a level of the existing index. In every table
  that a call in concat mode returns, each column is such an aggregation of a column of
  the input table. The reducer written out in \<^verbatim>\<open>RNAcentral.load_data\<close>, applied per group
  to a column of strings, computes the same strings. The values \<^verbatim>\<open>a, b, a, c\<close> give
  \<^verbatim>\<open>a|b|c\<close>.
\<close>

theorem concat_reducer:
  "(aggregation_pre data index columns \<longrightarrow>
      snd (base_get_annotations data index columns Concat)
        = Inr (aggregate_spec data index (remove1 index columns) concat_uniques))
   \<and> (aggregation_pre data index columns \<or> index_aggregation_pre data index columns \<longrightarrow>
      snd (annotation_get_annotations data index (Some columns))
        = Inr (aggregate_spec data index (remove1 index columns) concat_uniques))
   \<and> (snd (base_get_annotations data index columns Concat) = Inr df \<or>
       snd (annotation_get_annotations data index columns_opt) = Inr df \<longrightarrow>
      (\<forall>(c, rs) \<in> set (cols df). \<exists>vs. (c, vs) \<in> set (cols data) \<and>
          rs = map (\<lambda>k. Str (join_str ''|'' (first_appearances
                        (map str_repr (group_values (key_column data index) vs k)))))
                 (group_keys (key_column data index))))
   \<and> concat_uniques (map Str ss) = Str (join_str ''|'' (first_appearances ss))
   \<and> join_unique (map Str ss) = Inr (Str (join_str ''|'' (first_appearances ss)))
   \<and> reduce_column join_unique ks (map Str ss)
       = Inr (map (\<lambda>k. Str (join_str ''|'' (first_appearances
                      (map snd (filter (\<lambda>kv. fst kv = k) (zip ks ss))))))
               (group_keys ks))
   \<and> concat_uniques [Str ''a'', Str ''b'', Str ''a'', Str ''c''] = Str ''a|b|c''
   \<and> join_unique [Str ''a'', Str ''b'', Str ''a'', Str ''c''] = Inr (Str ''a|b|c'')"
proof (intro conjI impI)
  assume "aggregation_pre data index columns"
  then show "snd (base_get_annotations data index columns Concat)
        = Inr (aggregate_spec data index (remove1 index columns) concat_uniques)"
    by (rule base_get_annotations_concat)
next
  assume "aggregation_pre data index columns \<or> index_aggregation_pre data index columns"
  then show "snd (annotation_get_annotations data index (Some columns))
        = Inr (aggregate_spec data index (remove1 index columns) concat_uniques)"
    by (rule annotation_get_annotations_concat)
next
  assume a: "snd (base_get_annotations data index columns Concat) = Inr df \<or>
    snd (annotation_get_annotations data index columns_opt) = Inr df"
  let ?ks = "key_column data index"
  have "\<exists>d cs. label_or_level d index = Inr ?ks \<and> set (cols d) \<subseteq> set (cols data) \<and>
          groupby_agg_dict d index (map (\<lambda>c. (c, \<lambda>vs. Inr (concat_uniques vs))) cs) = Inr df"
    using a
  proof
    assume "snd (base_get_annotations data index columns Concat) = Inr df"
    then show ?thesis by (rule base_get_annotations_Inr) (simp, blast)
  next
    assume "snd (annotation_get_annotations data index columns_opt) = Inr df"
    then show ?thesis by (rule annotation_get_annotations_Inr) blast
  qed
  then obtain d cs where k: "label_or_level d index = Inr ?ks"
    and sub: "set (cols d) \<subseteq> set (cols data)"
    and g: "groupby_agg_dict d index (map (\<lambda>c. (c, \<lambda>vs. Inr (concat_uniques vs))) cs) = Inr df"
    by blast
  from groupby_agg_dict_cols[OF g k] sub
  show "\<forall>(c, rs) \<in> set (cols df). \<exists>vs. (c, vs) \<in> set (cols data) \<and>
          rs = map (\<lambda>k. Str (join_str ''|'' (first_appearances
                        (map str_repr (group_values ?ks vs k))))) (group_keys ?ks)"
    by (fastforce simp: concat_uniques_def)
next
  show "concat_uniques (map Str ss) = Str (join_str ''|'' (first_appearances ss))"
    by (rule concat_uniques_strings)
  show "join_unique (map Str ss) = Inr (Str (join_str ''|'' (first_appearances ss)))"
    by (rule join_unique_strings)
  show "reduce_column join_unique ks (map Str ss)
       = Inr (map (\<lambda>k. Str (join_str ''|'' (first_appearances
                      (map snd (filter (\<lambda>kv. fst kv = k) (zip ks ss))))))
               (group_keys ks))"
    unfolding reduce_column_def group_values_strings join_unique_strings
    by (rule sequence_Inr_map)
  show "concat_uniques [Str ''a'', Str ''b'', Str ''a'', Str ''c''] = Str ''a|b|c''"
    by code_simp
  show "join_unique [Str ''a'', Str ''b'', Str ''a'', Str ''c''] = Inr (Str ''a|b|c'')"
    by code_simp
qed

text \<open>
  The resource of the end-to-end scenario: the rows of key \<^verbatim>\<open>G1\<close> hold \<^verbatim>\<open>GO:1\<close> and
  \<^verbatim>\<open>GO:2\<close>, and the aggregated column holds \<^verbatim>\<open>GO:1|GO:2\<close> for it, whether the key is a
  column or the index of the resource.
\<close>

theorem concat_reducer_witness:
  "aggregation_pre go_resource ''gene_id'' [''go_id'']
   \<and> snd (base_get_annotations go_resource ''gene_id'' [''go_id''] Concat)
       = Inr (aggregate_spec go_resource ''gene_id'' [''go_id''] concat_uniques)
   \<and> snd (annotation_get_annotations go_resource ''gene_id'' (Some [''go_id'']))
       = Inr (aggregate_spec go_resource ''gene_id'' [''go_id''] concat_uniques)
   \<and> aggregate_spec go_resource ''gene_id'' [''go_id''] concat_uniques = go_aggregated
   \<and> cols go_aggregated = [(''go_id'', [Str ''GO:1|GO:2'', Str ''GO:3''])]
   \<and> index_aggregation_pre indexed_resource ''gene_id'' [''go_id'']
   \<and> snd (annotation_get_annotations indexed_resource ''gene_id'' (Some [''go_id'']))
       = Inr (aggregate_spec indexed_resource ''gene_id'' [''go_id''] concat_uniques)
   \<and> aggregate_spec indexed_resource ''gene_id'' [''go_id''] concat_uniques = go_aggregated"
proof -
  have b: "aggregation_pre go_resource ''gene_id'' [''go_id'']" by code_simp
  have i: "index_aggregation_pre indexed_resource ''gene_id'' [''go_id'']" by code_simp
  have c: "cols go_aggregated = [(''go_id'', [Str ''GO:1|GO:2'', Str ''GO:3''])]"
    by (simp add: go_aggregated_def)
  have e1: "aggregate_spec go_resource ''gene_id'' [''go_id''] concat_uniques = go_aggregated"
    by code_simp
  have e2: "aggregate_spec indexed_resource ''gene_id'' [''go_id''] concat_uniques = go_aggregated"
    by code_simp
  from concat_reducer[where data = go_resource and index = "''gene_id''"
      and columns = "[''go_id'']"] b
  have 1: "snd (base_get_annotations go_resource ''gene_id'' [''go_id''] Concat)
       = Inr (aggregate_spec go_resource ''gene_id'' [''go_id''] concat_uniques)"
    and 2: "snd (annotation_get_annotations go_resource ''gene_id'' (Some [''go_id'']))
       = Inr (aggregate_spec go_resource ''gene_id'' [''go_id''] concat_uniques)"
    by simp_all
  from concat_reducer[where data = indexed_resource and index = "''gene_id''"
      and columns = "[''go_id'']"] i
  have 3: "snd (annotation_get_annotations indexed_resource ''gene_id'' (Some [''go_id'']))
       = Inr (aggregate_spec indexed_resource ''gene_id'' [''go_id''] concat_uniques)"
    by simp
  from b i c e1 e2 1 2 3 show ?thesis by simp
qed

section \<open>Claim C7\<close>

text \<open>
  Claim C7, as amended. The uniqueness check that ends \<^verbatim>\<open>get_annotations\<close> in
  \<^verbatim>\<open>annotation.py\<close> raises ValueError exactly on a table whose index has a duplicate
  value, and every table an aggregation produces passes it; \<^verbatim>\<open>get_annotations\<close> of
  \<^verbatim>\<open>base.py\<close> performs no check, and the tables it returns have no duplicate index
  value either.
\<close>

theorem uniqueness_check:
  "(groupby_agg_dict d by spec = Inr r \<or> groupby_aggregate d by f = Inr r
      \<longrightarrow> check_unique_index r = Inr r)
   \<and> (check_unique_index df = (if distinct (index_entries df) then Inr df else Inl ValueError))
   \<and> (snd (base_get_annotations data index columns agg) = Inr df' \<longrightarrow>
        check_unique_index df' = Inr df')"
proof (intro conjI impI)
  assume a: "groupby_agg_dict d by spec = Inr r \<or> groupby_aggregate d by f = Inr r"
  then obtain ks where "label_or_level d by = Inr ks"
    using groupby_agg_dict_key groupby_aggregate_key by blast
  with a have "levels r = [(Some by, group_keys ks)]"
    using groupby_agg_dict_levels groupby_aggregate_levels by blast
  from distinct_index_entries_single[OF this] show "check_unique_index r = Inr r"
    by (simp add: check_unique_index_def distinct_group_keys)
next
  show "check_unique_index df = (if distinct (index_entries df) then Inr df else Inl ValueError)"
    by (simp add: check_unique_index_def)
next
  assume "snd (base_get_annotations data index columns agg) = Inr df'"
  from distinct_index_entries_single[OF base_get_annotations_levels[OF this]]
  show "check_unique_index df' = Inr df'"
    by (simp add: check_unique_index_def distinct_group_keys)
qed

theorem uniqueness_check_witness:
  "snd (base_get_annotations go_resource ''gene_id'' [''go_id''] Concat) = Inr go_aggregated
   \<and> check_unique_index go_aggregated = Inr go_aggregated"
proof -
  have a: "snd (base_get_annotations go_resource ''gene_id'' [''go_id''] Concat) = Inr go_aggregated"
    by code_simp
  with uniqueness_check[where data = go_resource and index = "''gene_id''"
      and columns = "[''go_id'']" and agg = Concat and df' = go_aggregated]
  show ?thesis by blast
qed

text \<open>
  Claim C7 as stated fails in \<^verbatim>\<open>base.py\<close>: with \<^verbatim>\<open>fuzzy_match\<close> the keys \<^verbatim>\<open>G1a\<close> and
  \<^verbatim>\<open>G1b\<close> of the aggregated table are both rewritten to \<^verbatim>\<open>G1\<close>; the table that is
  joined has a duplicate index value, and the call returns without raising.
\<close>

theorem uniqueness_check_counterexample:
  "result_index (fuzzy_annotation_table difflib_get_close_matches gene_store alias_resource
      ''gene_id'' [''go_id''] Concat) = Inr [[Str ''G1''], [Str ''G1'']]
   \<and> snd (base_annotate_genomics difflib_get_close_matches gene_store alias_resource
      ''gene_id'' [''go_id''] Concat True) = None"
  by code_simp

section \<open>Proofs: joining\<close>

subsection \<open>Well-formed frames\<close>











lemma reset_names_length: "length (reset_names df) = length (levels df) \<or> levels df = []"
  by (auto simp: reset_names_def split: list.splits)






subsection \<open>Joining against a table with distinct keys\<close>









subsection \<open>The number of rows through a join call\<close>














section \<open>Claim C2\<close>






lemma reset_index_Inr:
  assumes "reset_index df = Inr df'"
  shows "distinct (reset_names df)" "set (reset_names df) \<inter> set (labels df) = {}"
    "levels df' = [(None, map (\<lambda>i. Num (int i)) [0..<nrows df])]"
    "cols df' = zip (reset_names df) (map snd (levels df)) @ cols df"
  using assms by (auto simp: reset_index_def Let_def split: if_splits)




section \<open>Proofs: the index through the merge and the join\<close>

















section \<open>Claim C4\<close>




section \<open>Proofs: a call that raises\<close>

lemma length_reset_names: "length (reset_names df) = length (levels df)"
  by (auto simp: reset_names_def split: list.splits)

lemma reset_index_changes: "reset_index a = Inr a1 \<Longrightarrow> a1 \<noteq> a"
proof
  assume r: "reset_index a = Inr a1" and e: "a1 = a"
  from reset_index_Inr(3,4)[OF r] e
  have l: "levels a = [(None, map (\<lambda>i. Num (int i)) [0..<nrows a])]"
    and c: "cols a = zip (reset_names a) (map snd (levels a)) @ cols a" by simp_all
  from c have "zip (reset_names a) (map snd (levels a)) = []" by simp
  then have "reset_names a = [] \<or> levels a = []" by simp
  then have "levels a = []" using length_reset_names[of a] by auto
  with l show False by simp
qed

lemma base_annotate_genomics_database_df:
  "base_annotate_genomics m a data index columns agg fuzzy_match =
     (case base_database_df m a data index columns agg fuzzy_match of
        Inl e \<Rightarrow> (a, Some e)
      | Inr database_df \<Rightarrow>
          if Some index = index_name a then
            assign (join_on a database_df index) a base_merge
          else
            let old_index = (if is_MultiIndex a then level_names a else [index_name a]) in
            assign (reset_index a) a (\<lambda>annotations.
            assign (set_index annotations [Some index]) annotations (\<lambda>annotations.
            assign (case join_on annotations database_df index of
                      Inl e \<Rightarrow> Inl e | Inr joined \<Rightarrow> reset_index joined)
                   annotations (\<lambda>annotations.
            assign (set_index annotations old_index) annotations base_merge))))"
  by (simp add: base_annotate_genomics_def base_database_df_def base_merge_def[abs_def]
      split: sum.splits)

lemma annotation_annotate_genomics_unfold:
  "annotation_annotate_genomics a data index columns =
     (if Some index = index_name a then
        assign (case snd (annotation_get_annotations data index columns) of
                  Inl e \<Rightarrow> Inl e | Inr database_df \<Rightarrow> join_on a database_df index)
          a annotation_merge
      else
        assign (reset_index a) a (\<lambda>annotations.
        assign (set_index annotations [Some index]) annotations (\<lambda>annotations.
        assign (case snd (annotation_get_annotations data index columns) of
                  Inl e \<Rightarrow> Inl e | Inr database_df \<Rightarrow> join_on annotations database_df index)
               annotations (\<lambda>annotations.
        assign (reset_index annotations) annotations (\<lambda>annotations.
        assign (set_index annotations [index_name a]) annotations annotation_merge)))))"
  by (simp add: annotation_annotate_genomics_def annotation_merge_def[abs_def] Let_def)

section \<open>Claim C8\<close>

text \<open>
  Claim C8, as amended. \<^verbatim>\<open>annotate_genomics\<close> assigns \<^verbatim>\<open>self.annotations\<close> step by step,
  without staging. A call that raises before its first assignment leaves the table as it
  was on entry: in \<^verbatim>\<open>base.py\<close> when the aggregation of the database table or the fuzzy
  matching raises; in both versions when the key is the name of the index and the join
  raises (in \<^verbatim>\<open>annotation.py\<close> the aggregation is part of that expression), and when the key
  is not the name of the index and the first \<^verbatim>\<open>reset_index\<close> raises. A call whose key is
  not the name of the index and that raises when the table is re-keyed to it leaves the
  table as \<^verbatim>\<open>reset_index\<close> made it, which is not the table on entry.
\<close>

theorem join_failure_before_assignment:
  "(base_database_df get_close_matches annotations data index columns agg fuzzy_match = Inl e \<longrightarrow>
      base_annotate_genomics get_close_matches annotations data index columns agg fuzzy_match
        = (annotations, Some e))
   \<and> (base_database_df get_close_matches annotations data index columns agg fuzzy_match
        = Inr database_df \<and>
      (Some index = index_name annotations \<and> join_on annotations database_df index = Inl e \<or>
       Some index \<noteq> index_name annotations \<and> reset_index annotations = Inl e) \<longrightarrow>
      base_annotate_genomics get_close_matches annotations data index columns agg fuzzy_match
        = (annotations, Some e))
   \<and> (Some index = index_name annotations \<and>
      (snd (annotation_get_annotations data index columns_opt) = Inl e \<or>
       snd (annotation_get_annotations data index columns_opt) = Inr database_df \<and>
       join_on annotations database_df index = Inl e) \<or>
      Some index \<noteq> index_name annotations \<and> reset_index annotations = Inl e \<longrightarrow>
      annotation_annotate_genomics annotations data index columns_opt = (annotations, Some e))
   \<and> (Some index \<noteq> index_name annotations \<and> reset_index annotations = Inr reset \<and>
      set_index reset [Some index] = Inl e \<longrightarrow>
      reset \<noteq> annotations \<and>
      annotation_annotate_genomics annotations data index columns_opt = (reset, Some e) \<and>
      (base_database_df get_close_matches annotations data index columns agg fuzzy_match
         = Inr database_df \<longrightarrow>
       base_annotate_genomics get_close_matches annotations data index columns agg fuzzy_match
         = (reset, Some e)))"
proof (intro conjI impI)
  assume "base_database_df get_close_matches annotations data index columns agg fuzzy_match
    = Inl e"
  then show "base_annotate_genomics get_close_matches annotations data index columns agg
      fuzzy_match = (annotations, Some e)"
    by (simp add: base_annotate_genomics_database_df)
next
  assume "base_database_df get_close_matches annotations data index columns agg fuzzy_match
        = Inr database_df \<and>
      (Some index = index_name annotations \<and> join_on annotations database_df index = Inl e \<or>
       Some index \<noteq> index_name annotations \<and> reset_index annotations = Inl e)"
  then show "base_annotate_genomics get_close_matches annotations data index columns agg
      fuzzy_match = (annotations, Some e)"
    by (auto simp: base_annotate_genomics_database_df assign_def Let_def)
next
  assume "Some index = index_name annotations \<and>
      (snd (annotation_get_annotations data index columns_opt) = Inl e \<or>
       snd (annotation_get_annotations data index columns_opt) = Inr database_df \<and>
       join_on annotations database_df index = Inl e) \<or>
      Some index \<noteq> index_name annotations \<and> reset_index annotations = Inl e"
  then show "annotation_annotate_genomics annotations data index columns_opt
      = (annotations, Some e)"
    by (auto simp: annotation_annotate_genomics_unfold assign_def)
next
  assume a: "Some index \<noteq> index_name annotations \<and> reset_index annotations = Inr reset \<and>
      set_index reset [Some index] = Inl e"
  then show "reset \<noteq> annotations" using reset_index_changes by blast
  from a show "annotation_annotate_genomics annotations data index columns_opt = (reset, Some e)"
    by (simp add: annotation_annotate_genomics_unfold assign_def)
  show "base_annotate_genomics get_close_matches annotations data index columns agg fuzzy_match
         = (reset, Some e)"
    if "base_database_df get_close_matches annotations data index columns agg fuzzy_match
         = Inr database_df"
    using a that by (simp add: base_annotate_genomics_database_df assign_def Let_def)
qed

text \<open>
  Asking the resource of the end-to-end scenario for a column it does not have raises
  during the aggregation, a resource key without a close match raises during the fuzzy
  matching, and the store is unchanged; a key that is not a column of the store raises
  when the store is re-keyed, and the store is left with its index reset.
\<close>

theorem join_failure_before_assignment_witness:
  "base_database_df difflib_get_close_matches gene_store go_resource ''gene_id'' [''bogus'']
      Concat False = Inl PyException
   \<and> base_annotate_genomics difflib_get_close_matches gene_store go_resource ''gene_id''
        [''bogus''] Concat False = (gene_store, Some PyException)
   \<and> base_database_df difflib_get_close_matches gene_store unmatched_resource ''gene_id''
        [''go_id''] Concat True = Inl IndexError
   \<and> base_annotate_genomics difflib_get_close_matches gene_store unmatched_resource ''gene_id''
        [''go_id''] Concat True = (gene_store, Some IndexError)
   \<and> Some ''gene_name'' \<noteq> index_name gene_store
   \<and> reset_index gene_store
        = Inr \<lparr>levels = [(None, [Num 0, Num 1, Num 2])],
               cols = [(''gene_id'', [Str ''G1'', Str ''G2'', Str ''G3''])]\<rparr>
   \<and> set_index \<lparr>levels = [(None, [Num 0, Num 1, Num 2])],
                 cols = [(''gene_id'', [Str ''G1'', Str ''G2'', Str ''G3''])]\<rparr>
        [Some ''gene_name''] = Inl KeyError
   \<and> annotation_annotate_genomics gene_store name_resource ''gene_name'' (Some [''go_id''])
        = (\<lparr>levels = [(None, [Num 0, Num 1, Num 2])],
            cols = [(''gene_id'', [Str ''G1'', Str ''G2'', Str ''G3''])]\<rparr>, Some KeyError)"
proof -
  let ?reset = "\<lparr>levels = [(None, [Num 0, Num 1, Num 2])],
               cols = [(''gene_id'', [Str ''G1'', Str ''G2'', Str ''G3''])]\<rparr>"
  have a: "base_database_df difflib_get_close_matches gene_store go_resource ''gene_id''
      [''bogus''] Concat False = Inl PyException"
    by code_simp
  have b: "base_database_df difflib_get_close_matches gene_store unmatched_resource ''gene_id''
        [''go_id''] Concat True = Inl IndexError"
    by code_simp
  have c: "Some ''gene_name'' \<noteq> index_name gene_store" by code_simp
  have d: "reset_index gene_store = Inr ?reset" by code_simp
  have e: "set_index ?reset [Some ''gene_name''] = Inl KeyError" by code_simp
  from join_failure_before_assignment[where data = go_resource and index = "''gene_id''"
      and columns = "[''bogus'']" and agg = Concat and e = PyException
      and get_close_matches = difflib_get_close_matches and annotations = gene_store
      and fuzzy_match = False] a
  have 1: "base_annotate_genomics difflib_get_close_matches gene_store go_resource ''gene_id''
        [''bogus''] Concat False = (gene_store, Some PyException)" by blast
  from join_failure_before_assignment[where data = unmatched_resource and index = "''gene_id''"
      and columns = "[''go_id'']" and agg = Concat and e = IndexError
      and get_close_matches = difflib_get_close_matches and annotations = gene_store
      and fuzzy_match = True] b
  have 2: "base_annotate_genomics difflib_get_close_matches gene_store unmatched_resource
        ''gene_id'' [''go_id''] Concat True = (gene_store, Some IndexError)" by blast
  from join_failure_before_assignment[where data = name_resource and index = "''gene_name''"
      and columns_opt = "Some [''go_id'']" and e = KeyError and annotations = gene_store
      and reset = ?reset] c d e
  have 3: "annotation_annotate_genomics gene_store name_resource ''gene_name'' (Some [''go_id''])
        = (?reset, Some KeyError)" by blast
  from a b c d e 1 2 3 show ?thesis by blast
qed

text \<open>
  Claim C8 as stated fails: a join on the key \<^verbatim>\<open>gene_name\<close>, which is not a column of
  the store, raises KeyError after the store has been re-indexed; on exit the identifiers
  are a column and the index is the range \<open>0, 1, 2\<close>.
\<close>

theorem join_failure_counterexample:
  "base_annotate_genomics difflib_get_close_matches gene_store name_resource ''gene_name''
     [''go_id''] Concat False
   = (\<lparr>levels = [(None, [Num 0, Num 1, Num 2])],
       cols = [(''gene_id'', [Str ''G1'', Str ''G2'', Str ''G3''])]\<rparr>, Some KeyError)
   \<and> gene_store = \<lparr>levels = [(Some ''gene_id'', [Str ''G1'', Str ''G2'', Str ''G3''])],
                   cols = []\<rparr>
   \<and> annotation_annotate_genomics gene_store name_resource ''gene_name'' (Some [''go_id''])
   = (\<lparr>levels = [(None, [Num 0, Num 1, Num 2])],
       cols = [(''gene_id'', [Str ''G1'', Str ''G2'', Str ''G3''])]\<rparr>, Some KeyError)"
  by code_simp

section \<open>Proofs: the string matcher\<close>

lemma better_match_bound:
  assumes "snd (snd best) = 0 \<or> fst best < length a" "fst ij < length a"
  shows "snd (snd (better_match a b best ij)) = 0 \<or> fst (better_match a b best ij) < length a"
  using assms by (auto simp: better_match_def Let_def)

lemma foldl_better_match_bound:
  "snd (snd best) = 0 \<or> fst best < length a \<Longrightarrow> \<forall>ij \<in> set ps. fst ij < length a \<Longrightarrow>
   snd (snd (foldl (better_match a b) best ps)) = 0
     \<or> fst (foldl (better_match a b) best ps) < length a"
proof (induction ps arbitrary: best)
  case Nil then show ?case by simp
next
  case (Cons p ps)
  have "snd (snd (better_match a b best p)) = 0 \<or> fst (better_match a b best p) < length a"
    using Cons.prems by (intro better_match_bound) simp_all
  from Cons.IH[OF this] Cons.prems(2) show ?case by simp
qed

lemma find_longest_match_bound:
  assumes "find_longest_match a b = (i, j, k)" "k \<noteq> 0"
  shows "i < length a"
proof -
  have "snd (snd (find_longest_match a b)) = 0 \<or> fst (find_longest_match a b) < length a"
    unfolding find_longest_match_def by (rule foldl_better_match_bound) auto
  with assms show ?thesis by simp
qed

text \<open>Fuel beyond the length of the first sequence changes nothing.\<close>

lemma matched_fuel:
  "length a \<le> n \<Longrightarrow> length a \<le> m \<Longrightarrow> matched n a b = matched m a b"
proof (induction n arbitrary: m a b)
  case 0
  then have a: "a = []" by simp
  have "find_longest_match a b = (0, 0, 0)" by (simp add: a find_longest_match_def)
  then show ?case by (cases m) simp_all
next
  case (Suc n)
  obtain i j k where f: "find_longest_match a b = (i, j, k)" by (cases "find_longest_match a b")
  show ?case
  proof (cases "k = 0")
    case True
    then show ?thesis using f
    proof (cases m)
      case 0
      then have a: "a = []" using Suc.prems by simp
      then show ?thesis using 0 f True by simp
    qed simp
  next
    case False
    from find_longest_match_bound[OF f False] have i: "i < length a" .
    then obtain m' where m: "m = Suc m'" using Suc.prems(2) by (cases m) auto
    have l1: "length (take i a) \<le> n" "length (take i a) \<le> m'"
      using i Suc.prems m by simp_all
    have l2: "length (drop (i + k) a) \<le> n" "length (drop (i + k) a) \<le> m'"
      using i False Suc.prems m by simp_all
    show ?thesis using f False Suc.IH[OF l1] Suc.IH[OF l2] by (simp add: m)
  qed
qed

text \<open>
  \<^verbatim>\<open>strip("_")\<close> removes the marker at both ends: the old label computed for the incoming
  column \<^verbatim>\<open>_x_\<close> of a shared column \<^verbatim>\<open>_x\<close> is \<^verbatim>\<open>x\<close>.
\<close>

lemma strip_underscores_leading: "strip_underscores ''_x_'' = ''x''"
  by code_simp

section \<open>Claim C6\<close>

text \<open>
  Claim C6 is not met by the code. With \<^verbatim>\<open>fuzzy_match\<close>, a key of the aggregated table
  without a close match among the identifiers of the store makes
  \<^verbatim>\<open>get_close_matches(...)[0]\<close> raise IndexError: the key \<^verbatim>\<open>XYZ\<close> has no close match
  among \<^verbatim>\<open>G1\<close>, \<^verbatim>\<open>G2\<close>, \<^verbatim>\<open>G3\<close>, and the join does not complete. The same call
  without \<^verbatim>\<open>fuzzy_match\<close> returns and leaves the unmatched row out.
\<close>

theorem fuzzy_no_match_raises:
  "difflib_get_close_matches [Str ''XYZ''] (index_entries gene_store) = Inr []
   \<and> base_annotate_genomics difflib_get_close_matches gene_store unmatched_resource
        ''gene_id'' [''go_id''] Concat True = (gene_store, Some IndexError)
   \<and> base_annotate_genomics difflib_get_close_matches gene_store unmatched_resource
        ''gene_id'' [''go_id''] Concat False
      = (\<lparr>levels = [(Some ''gene_id'', [Str ''G1'', Str ''G2'', Str ''G3''])],
          cols = [(''go_id'', [NaN, NaN, NaN])]\<rparr>, None)"
  by code_simp

section \<open>Proofs: the merge of overlapping columns\<close>















section \<open>Proofs: what the join leaves for the merge\<close>

subsection \<open>The columns after the join\<close>
















lemma fillna_nth:
  "i < length vs \<Longrightarrow> i < length ws \<Longrightarrow>
   fillna vs ws ! i = (if vs ! i = NaN then ws ! i else vs ! i)"
  by (simp add: fillna_def)



section \<open>Claim C3\<close>




end
